theory Spec2Isabelle
  imports Complex_Main "HOL-Library.AList" "HOL-Library.Multiset"
begin

section \<open>USDC security scanner: a shallow embedding\<close>

text \<open>
  The scanner is a JavaScript program.  Its data are modelled as follows.
  \<^item> JavaScript numbers that hold counts, block numbers, scores and impacts are integers
    (\<open>int\<close>, or \<open>nat\<close> for lengths); numbers that hold USDC amounts and confidences
    are reals.  The flash-loan detector is computed as the code computes it, with the
    product and the differences of amounts rounded to the nearest IEEE double; the other
    operations on amounts and confidences (sums of volumes, the 1% test of the wash-trading
    detector) are exact.
  \<^item> Strings are \<open>string\<close>; \<open>toLowerCase\<close> and \<open>toUpperCase\<close> map the ASCII
    letters, which is what JavaScript does on every ASCII string and so on every address,
    chain name and registry category.
  \<^item> Objects used as dictionaries are association lists in insertion order
    (\<open>Object.entries\<close> order) or maps where the order is never observed.
  \<^item> A rejected promise or a thrown exception is the \<open>Inl\<close> of a sum; the message is a
    string.
  \<^item> The data source (the RPC client) and the wall clock are parameters: a record of
    functions answering each query, and the sequence of values \<open>Date.now()\<close> returns.
  \<^item> The purely human-readable texts (\<open>detail\<close>, \<open>formatted\<close>, \<open>json\<close>,
    \<open>scannedAt\<close>, the text of a recommendation) are left out; the name of a risk
    factor is kept as a tagged value that carries the interpolated data.
\<close>

subsection \<open>Strings\<close>

definition lower_char :: "char \<Rightarrow> char" where
  "lower_char c =
     (let n = (of_char c :: nat) in if 65 \<le> n \<and> n \<le> 90 then char_of (n + 32) else c)"

definition upper_char :: "char \<Rightarrow> char" where
  "upper_char c =
     (let n = (of_char c :: nat) in if 97 \<le> n \<and> n \<le> 122 then char_of (n - 32) else c)"

definition toLowerCase :: "string \<Rightarrow> string" where
  "toLowerCase s = map lower_char s"

definition toUpperCase :: "string \<Rightarrow> string" where
  "toUpperCase s = map upper_char s"

subsection \<open>Numbers\<close>

text \<open>
  A JavaScript number is an IEEE 754 double: an integer multiple \<open>m 2\<^sup>q\<close> with
  \<open>\<bar>m\<bar> \<le> 2\<^sup>5\<^sup>3\<close> and \<open>-1074 \<le> q\<close>.  An arithmetic operation returns the
  double nearest to the exact result, the one with the even \<open>m\<close> when two are equally
  near.  \<open>bitLength n\<close> is the number of binary digits of \<open>n\<close>, and
  \<open>binaryExponent x\<close> the \<open>e\<close> with \<open>2\<^sup>e \<le> x < 2\<^sup>e\<^sup>+\<^sup>1\<close> for a positive \<open>x\<close>.
  Results of \<open>2\<^sup>1\<^sup>0\<^sup>2\<^sup>4\<close> and more, which JavaScript turns into \<open>Infinity\<close>, do not
  arise: an amount is a 256-bit integer divided by \<open>10\<^sup>6\<close>.
\<close>

function bitLength :: "int \<Rightarrow> int" where
  "bitLength n = (if n \<le> 0 then 0 else 1 + bitLength (n div 2))"
  by pat_completeness auto

termination
  by (relation "measure nat") auto

declare bitLength.simps [simp del]

definition pow2 :: "int \<Rightarrow> real" where
  "pow2 k = (if 0 \<le> k then 2 ^ nat k else 1 / 2 ^ nat (- k))"

definition binaryExponent :: "real \<Rightarrow> int" where
  "binaryExponent x =
     (if 1 \<le> x then bitLength \<lfloor>x\<rfloor> - 1 else - bitLength (\<lceil>1 / x\<rceil> - 1))"

definition roundHalfEven :: "real \<Rightarrow> int" where
  "roundHalfEven x =
     (let n = \<lfloor>x\<rfloor>; d = x - of_int n
      in if d < 1 / 2 then n else if 1 / 2 < d then n + 1 else if even n then n else n + 1)"

definition roundDouble :: "real \<Rightarrow> real" where
  "roundDouble x =
     (if x = 0 then 0
      else (let q = pow2 (max (binaryExponent \<bar>x\<bar> - 52) (- 1074))
            in sgn x * of_int (roundHalfEven (\<bar>x\<bar> / q)) * q))"

text \<open>The operators \<open>*\<close>, \<open>-\<close> and \<open>/\<close> of JavaScript on two doubles.\<close>

definition jsMul :: "real \<Rightarrow> real \<Rightarrow> real" where
  "jsMul x y = roundDouble (x * y)"

definition jsSub :: "real \<Rightarrow> real \<Rightarrow> real" where
  "jsSub x y = roundDouble (x - y)"

definition jsDiv :: "real \<Rightarrow> real \<Rightarrow> real" where
  "jsDiv x y = roundDouble (x / y)"

subsection \<open>Constants (lib/constants.js)\<close>

record band =
  band_min :: int
  band_max :: int

definition RISK_LEVELS :: "(string \<times> band) list" where
  "RISK_LEVELS =
     [(''CLEAN'', \<lparr>band_min = 0, band_max = 9\<rparr>),
      (''LOW'', \<lparr>band_min = 10, band_max = 39\<rparr>),
      (''MEDIUM'', \<lparr>band_min = 40, band_max = 69\<rparr>),
      (''HIGH'', \<lparr>band_min = 70, band_max = 89\<rparr>),
      (''CRITICAL'', \<lparr>band_min = 90, band_max = 100\<rparr>)]"

definition SEVERITY_WEIGHTS :: "(string \<times> int) list" where
  "SEVERITY_WEIGHTS =
     [(''critical'', 95), (''high'', 75), (''medium'', 45), (''low'', 20), (''info'', 5)]"

definition WASH_TRADE_MIN_CYCLES :: nat where
  "WASH_TRADE_MIN_CYCLES = 3"

definition WASH_TRADE_AMOUNT_TOLERANCE :: real where
  "WASH_TRADE_AMOUNT_TOLERANCE = 1 / 100"

definition FLASH_LOAN_MIN_AMOUNT :: real where
  "FLASH_LOAN_MIN_AMOUNT = 10000"

definition HIGH_VELOCITY_TXS_PER_HOUR :: nat where
  "HIGH_VELOCITY_TXS_PER_HOUR = 20"

definition LARGE_TRANSFER_USDC :: real where
  "LARGE_TRANSFER_USDC = 50000"

definition SUPPORTED_CHAINS :: "string list" where
  "SUPPORTED_CHAINS = [''ethereum'', ''base'', ''arbitrum'']"

subsection \<open>Records of the data source\<close>

record transfer =
  txHash :: string
  blockNumber :: int
  tx_from :: string
  tx_to :: string
  amountUSDC :: real
  logIndex :: nat

record deposit =
  dep_txHash :: string
  dep_blockNumber :: int
  sourceChain :: string

text \<open>
  The registry file \<open>data/scam-addresses.json\<close> is a parameter: the list of its
  \<open>(address, info)\<close> pairs in the order of \<open>Object.entries\<close>.
\<close>

record scam_entry =
  e_label :: string
  e_category :: string
  e_severity :: string
  e_chain :: "string list"
  e_details :: string
  e_reportedAt :: string

record scam_info =
  isKnownScam :: bool
  label :: string
  category :: string
  severity :: string
  chains :: "string list"
  details :: string
  reportedAt :: string
  riskScore :: int

datatype factor_name =
    NoTransactionHistory
  | LowTransactionsHighBalance
  | IsSmartContract
  | NearZeroEth
  | FailedToQuery string
  | KnownScam string string
  | InteractedWithScam nat string
  | RapidBridgingDetected
  | ChainHoppingDetected
  | RoundTripDetected

record risk_factor =
  factor :: factor_name
  impact :: int

record profile =
  p_address :: string
  p_chain :: string
  isContract :: bool
  txCount :: nat
  usdcBalance :: nat
  ethBalance :: nat
  usdcBalanceFormatted :: "real option"
  ethBalanceFormatted :: "real option"
  p_flags :: "string list"
  p_riskFactors :: "risk_factor list"

text \<open>
  The data source: every query takes the chain and the address and either fails with a
  message or answers.  The clock: \<open>dateNow w k\<close> is what the \<open>k\<close>-th call of
  \<open>Date.now()\<close> returns.
\<close>

record world =
  rpc_isContract :: "string \<Rightarrow> string \<Rightarrow> string + bool"
  rpc_getTransactionCount :: "string \<Rightarrow> string \<Rightarrow> string + nat"
  rpc_getUSDCBalance :: "string \<Rightarrow> string \<Rightarrow> string + nat"
  rpc_getBalance :: "string \<Rightarrow> string \<Rightarrow> string + nat"
  rpc_getUSDCTransfers :: "string \<Rightarrow> string \<Rightarrow> string + transfer list"
  rpc_getCCTPDeposits :: "string \<Rightarrow> string \<Rightarrow> string + deposit list"
  dateNow :: "nat \<Rightarrow> int"

subsection \<open>AddressChecker (lib/address-checker.js)\<close>

record cache_entry =
  ce_value :: profile
  ce_time :: int

record checker =
  scamDb :: "string \<rightharpoonup> scam_entry"
  cache :: "string \<rightharpoonup> cache_entry"
  clockReads :: nat

definition CACHE_TTL :: int where
  "CACHE_TTL = 300000"

definition loadScamDatabase :: "(string \<times> scam_entry) list \<Rightarrow> (string \<rightharpoonup> scam_entry)" where
  "loadScamDatabase addresses =
     fold (\<lambda>(addr, info) normalized. normalized(toLowerCase addr \<mapsto> info)) addresses Map.empty"

definition newAddressChecker :: "(string \<times> scam_entry) list \<Rightarrow> checker" where
  "newAddressChecker addresses =
     \<lparr>scamDb = loadScamDatabase addresses, cache = Map.empty, clockReads = 0\<rparr>"

definition reload :: "(string \<times> scam_entry) list \<Rightarrow> checker \<Rightarrow> checker" where
  "reload addresses st = st\<lparr>scamDb := loadScamDatabase addresses, cache := Map.empty\<rparr>"

text \<open>\<open>SEVERITY_WEIGHTS[entry.severity] || 50\<close>: a missing or zero weight gives 50.\<close>

definition severityWeight :: "string \<Rightarrow> int" where
  "severityWeight sev =
     (case map_of SEVERITY_WEIGHTS sev of
        None \<Rightarrow> 50
      | Some w \<Rightarrow> if w = 0 then 50 else w)"

definition checkScamDatabase :: "checker \<Rightarrow> string \<Rightarrow> scam_info option" where
  "checkScamDatabase st address =
     (let normalized = toLowerCase address in
      case scamDb st normalized of
        None \<Rightarrow> None
      | Some entry \<Rightarrow>
          Some \<lparr>isKnownScam = True, label = e_label entry, category = e_category entry,
                severity = e_severity entry, chains = e_chain entry,
                details = e_details entry, reportedAt = e_reportedAt entry,
                riskScore = severityWeight (e_severity entry)\<rparr>)"

text \<open>
  \<open>_getCache\<close> reads the clock only when the key is present; an entry older than the
  time to live is deleted.  \<open>_setCache\<close> reads the clock once.
\<close>

definition getCache :: "world \<Rightarrow> checker \<Rightarrow> string \<Rightarrow> profile option \<times> checker" where
  "getCache w st key =
     (case cache st key of
        None \<Rightarrow> (None, st)
      | Some entry \<Rightarrow>
          (let now = dateNow w (clockReads st);
               st1 = st\<lparr>clockReads := clockReads st + 1\<rparr>
           in if CACHE_TTL < now - ce_time entry
              then (None, st1\<lparr>cache := (cache st1)(key := None)\<rparr>)
              else (Some (ce_value entry), st1)))"

definition setCache :: "world \<Rightarrow> checker \<Rightarrow> string \<Rightarrow> profile \<Rightarrow> checker" where
  "setCache w st key v =
     st\<lparr>cache := (cache st)(key \<mapsto> \<lparr>ce_value = v, ce_time = dateNow w (clockReads st)\<rparr>),
        clockReads := clockReads st + 1\<rparr>"

record interaction =
  i_counterparty :: string
  i_txHash :: string
  i_amount :: real
  i_direction :: string
  i_scamInfo :: scam_info

definition checkScamInteractions ::
  "world \<Rightarrow> checker \<Rightarrow> string \<Rightarrow> string \<Rightarrow> interaction list" where
  "checkScamInteractions w st address chain =
     (let transfers = (case rpc_getUSDCTransfers w chain address of Inl err \<Rightarrow> [] | Inr ts \<Rightarrow> ts)
      in concat (map (\<lambda>tx.
           let counterparty =
                 (if toLowerCase (tx_from tx) = toLowerCase address then tx_to tx else tx_from tx)
           in case checkScamDatabase st counterparty of
                None \<Rightarrow> []
              | Some scamInfo \<Rightarrow>
                  [\<lparr>i_counterparty = counterparty, i_txHash = txHash tx,
                    i_amount = amountUSDC tx,
                    i_direction =
                      (if toLowerCase (tx_from tx) = toLowerCase address
                       then ''sent'' else ''received''),
                    i_scamInfo = scamInfo\<rparr>]) transfers))"

text \<open>The \<open>catch\<close> block of \<open>analyzeAddressProfile\<close>.\<close>

definition rpcErrorProfile :: "string \<Rightarrow> profile \<Rightarrow> profile" where
  "rpcErrorProfile message p =
     p\<lparr>p_flags := p_flags p @ [''RPC_ERROR''],
       p_riskFactors := p_riskFactors p @ [\<lparr>factor = FailedToQuery message, impact = 10\<rparr>]\<rparr>"

text \<open>The flag analysis at the end of the \<open>try\<close> block, one \<open>if\<close> after the other.\<close>

definition flagAnalysis :: "real \<Rightarrow> real \<Rightarrow> profile \<Rightarrow> profile" where
  "flagAnalysis usdcFormatted ethFormatted p0 =
     (let p1 = (if txCount p0 = 0
                then p0\<lparr>p_flags := p_flags p0 @ [''NEVER_TRANSACTED''],
                        p_riskFactors := p_riskFactors p0 @
                          [\<lparr>factor = NoTransactionHistory, impact = 15\<rparr>]\<rparr>
                else p0);
          p2 = (if txCount p1 < 5 \<and> LARGE_TRANSFER_USDC < usdcFormatted
                then p1\<lparr>p_flags := p_flags p1 @ [''LOW_TX_HIGH_BALANCE''],
                        p_riskFactors := p_riskFactors p1 @
                          [\<lparr>factor = LowTransactionsHighBalance, impact = 25\<rparr>]\<rparr>
                else p1);
          p3 = (if isContract p2
                then p2\<lparr>p_flags := p_flags p2 @ [''IS_CONTRACT''],
                        p_riskFactors := p_riskFactors p2 @
                          [\<lparr>factor = IsSmartContract, impact = 5\<rparr>]\<rparr>
                else p2);
          p4 = (if ethFormatted < 1 / 1000 \<and> 0 < txCount p3
                then p3\<lparr>p_flags := p_flags p3 @ [''DUST_ETH''],
                        p_riskFactors := p_riskFactors p3 @
                          [\<lparr>factor = NearZeroEth, impact = 10\<rparr>]\<rparr>
                else p3)
      in p4)"

text \<open>
  The \<open>try\<close>/\<open>catch\<close> of \<open>analyzeAddressProfile\<close>: the four queries in the order of
  the source, each assigning its field; the first failure leaves the fields assigned so
  far and runs the \<open>catch\<close> block.
\<close>

definition buildProfile :: "world \<Rightarrow> string \<Rightarrow> string \<Rightarrow> profile" where
  "buildProfile w address chain =
     (let p0 = \<lparr>p_address = toLowerCase address, p_chain = chain, isContract = False,
                txCount = 0, usdcBalance = 0, ethBalance = 0,
                usdcBalanceFormatted = None, ethBalanceFormatted = None,
                p_flags = [], p_riskFactors = []\<rparr>
      in case rpc_isContract w chain address of
           Inl err \<Rightarrow> rpcErrorProfile err p0
         | Inr c \<Rightarrow>
             (let p1 = p0\<lparr>isContract := c\<rparr>
              in case rpc_getTransactionCount w chain address of
                   Inl err \<Rightarrow> rpcErrorProfile err p1
                 | Inr n \<Rightarrow>
                     (let p2 = p1\<lparr>txCount := n\<rparr>
                      in case rpc_getUSDCBalance w chain address of
                           Inl err \<Rightarrow> rpcErrorProfile err p2
                         | Inr rawBalance \<Rightarrow>
                             (let usdcFormatted = real rawBalance / 1000000;
                                  p3 = p2\<lparr>usdcBalance := rawBalance,
                                          usdcBalanceFormatted := Some usdcFormatted\<rparr>
                              in case rpc_getBalance w chain address of
                                   Inl err \<Rightarrow> rpcErrorProfile err p3
                                 | Inr eth \<Rightarrow>
                                     (let ethFormatted = real eth / 1000000000000000000;
                                          p4 = p3\<lparr>ethBalance := eth,
                                                  ethBalanceFormatted := Some ethFormatted\<rparr>
                                      in flagAnalysis usdcFormatted ethFormatted p4)))))"

definition cacheKey :: "string \<Rightarrow> string \<Rightarrow> string" where
  "cacheKey chain address = ''profile:'' @ chain @ '':'' @ toLowerCase address"

definition analyzeAddressProfile ::
  "world \<Rightarrow> checker \<Rightarrow> string \<Rightarrow> string \<Rightarrow> profile \<times> checker" where
  "analyzeAddressProfile w st address chain =
     (case getCache w st (cacheKey chain address) of
        (Some cached, st1) \<Rightarrow> (cached, st1)
      | (None, st1) \<Rightarrow>
          (let p = buildProfile w address chain
           in (p, setCache w st1 (cacheKey chain address) p)))"

record reputation =
  rep_address :: string
  rep_overallScore :: int
  rep_level :: string
  rep_chains :: "string \<rightharpoonup> profile"
  rep_scamMatch :: "scam_info option"
  rep_interactions :: "interaction list"
  rep_flags :: "string list"
  rep_riskFactors :: "risk_factor list"

text \<open>\<open>Set.add\<close> on a set kept in insertion order.\<close>

definition set_add :: "'a \<Rightarrow> 'a list \<Rightarrow> 'a list" where
  "set_add x xs = (if x \<in> set xs then xs else xs @ [x])"

text \<open>
  One iteration of the loop over the chains in \<open>getReputation\<close>.  Neither
  \<open>analyzeAddressProfile\<close> nor \<open>checkScamInteractions\<close> lets an exception escape, so
  the \<open>catch\<close> of the loop body has no branch here.
\<close>

definition reputationChain ::
  "world \<Rightarrow> string \<Rightarrow> string \<Rightarrow> reputation \<times> checker \<Rightarrow> reputation \<times> checker" where
  "reputationChain w address chain acc =
     (case acc of (rep, st) \<Rightarrow>
        (case analyzeAddressProfile w st address chain of (prof, st1) \<Rightarrow>
           (let rep1 = rep\<lparr>rep_chains := (rep_chains rep)(chain \<mapsto> prof),
                           rep_flags := fold set_add (p_flags prof) (rep_flags rep),
                           rep_riskFactors := rep_riskFactors rep @ p_riskFactors prof\<rparr>;
                interactions = checkScamInteractions w st1 address chain
            in if 0 < length interactions
               then (rep1\<lparr>rep_interactions := rep_interactions rep1 @ interactions,
                          rep_flags := set_add ''SCAM_INTERACTIONS'' (rep_flags rep1),
                          rep_riskFactors := rep_riskFactors rep1 @
                            [\<lparr>factor = InteractedWithScam (length interactions) chain,
                              impact = min 50 (int (length interactions) * 15)\<rparr>]\<rparr>, st1)
               else (rep1, st1))))"

definition reputationLevel :: "int \<Rightarrow> string" where
  "reputationLevel score =
     (if 90 \<le> score then ''CRITICAL''
      else if 70 \<le> score then ''HIGH''
      else if 40 \<le> score then ''MEDIUM''
      else if 10 \<le> score then ''LOW''
      else ''CLEAN'')"

definition checkerGetReputation ::
  "world \<Rightarrow> checker \<Rightarrow> string \<Rightarrow> string list \<Rightarrow> reputation \<times> checker" where
  "checkerGetReputation w st address chainList =
     (let rep0 = \<lparr>rep_address = toLowerCase address, rep_overallScore = 0,
                  rep_level = ''CLEAN'', rep_chains = Map.empty, rep_scamMatch = None,
                  rep_interactions = [], rep_flags = [], rep_riskFactors = []\<rparr>;
          scamMatch = checkScamDatabase st address;
          rep1 = (case scamMatch of
                    None \<Rightarrow> rep0
                  | Some m \<Rightarrow>
                      rep0\<lparr>rep_scamMatch := Some m,
                           rep_overallScore := riskScore m,
                           rep_flags := set_add (''KNOWN_'' @ toUpperCase (category m)) (rep_flags rep0),
                           rep_riskFactors := rep_riskFactors rep0 @
                             [\<lparr>factor = KnownScam (category m) (label m), impact = riskScore m\<rparr>]\<rparr>)
      in case fold (reputationChain w address) chainList (rep1, st) of (rep2, st2) \<Rightarrow>
           (let rep3 = (if scamMatch = None
                        then rep2\<lparr>rep_overallScore :=
                               min 100 (fold (\<lambda>f sum. sum + impact f) (rep_riskFactors rep2) 0)\<rparr>
                        else rep2)
            in (rep3\<lparr>rep_level := reputationLevel (rep_overallScore rep3)\<rparr>, st2)))"

subsection \<open>PatternDetector (lib/pattern-detector.js)\<close>

record suspicious_pair =
  sp_counterparty :: string
  sentCount :: nat
  receivedCount :: nat
  matchingAmountCycles :: nat
  sp_totalVolume :: real

record suspicious_block =
  sb_blockNumber :: int
  receivedAmount :: real
  sentAmount :: real
  receivedFrom :: string
  sentTo :: string
  netProfit :: real

record circular =
  c_counterparty :: string
  totalSent :: real
  totalReceived :: real
  netFlow :: real
  cycleCount :: nat

record large_transfer =
  lt_txHash :: string
  lt_amount :: real
  lt_from :: string
  lt_to :: string
  lt_blockNumber :: int

datatype evidence =
    WashEvidence "suspicious_pair list" real
  | FlashEvidence "suspicious_block list" real
  | VelocityEvidence int nat
  | CircularEvidence "circular list" real
  | LargeEvidence "large_transfer list" real
  | RapidEvidence nat nat
  | HoppingEvidence "string list" nat

record finding =
  ftype :: string
  f_severity :: string
  riskImpact :: int
  confidence :: real
  f_evidence :: evidence

text \<open>\<open>xs.reduce((sum, x) => sum + f(x), 0)\<close>.\<close>

definition reduceSum :: "('a \<Rightarrow> 'b::monoid_add) \<Rightarrow> 'a list \<Rightarrow> 'b" where
  "reduceSum f xs = fold (\<lambda>x sum. sum + f x) xs 0"

paragraph \<open>Wash trading\<close>

record flows =
  sent :: "transfer list"
  received :: "transfer list"

text \<open>
  One iteration of the grouping loop.  The object \<open>counterparties\<close> is the association
  list of its entries in insertion order: a new key goes to the end, an old key keeps its
  place.
\<close>

definition washGroup ::
  "string \<Rightarrow> transfer \<Rightarrow> (string \<times> flows) list \<Rightarrow> (string \<times> flows) list" where
  "washGroup addr tx counterparties =
     (let counterparty =
            (if toLowerCase (tx_from tx) = addr
             then toLowerCase (tx_to tx) else toLowerCase (tx_from tx));
          fl = (case map_of counterparties counterparty of
                  None \<Rightarrow> \<lparr>sent = [], received = []\<rparr>
                | Some fl0 \<Rightarrow> fl0)
      in if toLowerCase (tx_from tx) = addr
         then AList.update counterparty (fl\<lparr>sent := sent fl @ [tx]\<rparr>) counterparties
         else AList.update counterparty (fl\<lparr>received := received fl @ [tx]\<rparr>) counterparties)"

definition amountsMatch :: "transfer \<Rightarrow> transfer \<Rightarrow> bool" where
  "amountsMatch s r =
     (let tolerance = amountUSDC s * WASH_TRADE_AMOUNT_TOLERANCE
      in \<bar>amountUSDC s - amountUSDC r\<bar> \<le> tolerance)"

text \<open>The two nested loops that count \<open>matches\<close>.\<close>

definition washMatches :: "flows \<Rightarrow> nat" where
  "washMatches fl =
     fold (\<lambda>s matches.
             fold (\<lambda>r matches. if amountsMatch s r then matches + 1 else matches)
               (received fl) matches)
       (sent fl) 0"

definition washPair :: "string \<times> flows \<Rightarrow> suspicious_pair list" where
  "washPair entry =
     (case entry of (cp, fl) \<Rightarrow>
        if length (sent fl) = 0 \<or> length (received fl) = 0 then []
        else if WASH_TRADE_MIN_CYCLES \<le> washMatches fl
        then [\<lparr>sp_counterparty = cp, sentCount = length (sent fl),
               receivedCount = length (received fl),
               matchingAmountCycles = washMatches fl,
               sp_totalVolume = reduceSum amountUSDC (sent fl @ received fl)\<rparr>]
        else [])"

definition detectWashTrading :: "string \<Rightarrow> transfer list \<Rightarrow> finding option" where
  "detectWashTrading address transfers =
     (let addr = toLowerCase address;
          counterparties = fold (washGroup addr) transfers [];
          suspiciousPairs = concat (map washPair counterparties)
      in if length suspiciousPairs = 0 then None
         else Some \<lparr>ftype = ''WASH_TRADING'', f_severity = ''high'', riskImpact = 35,
                     confidence = min 95 (50 + real (length suspiciousPairs) * 15),
                     f_evidence = WashEvidence suspiciousPairs
                                    (reduceSum sp_totalVolume suspiciousPairs)\<rparr>)"

paragraph \<open>Flash loans\<close>

definition blockGroup ::
  "transfer \<Rightarrow> (int \<times> transfer list) list \<Rightarrow> (int \<times> transfer list) list" where
  "blockGroup tx byBlock =
     AList.update (blockNumber tx)
       ((case map_of byBlock (blockNumber tx) of None \<Rightarrow> [] | Some txs \<Rightarrow> txs) @ [tx])
       byBlock"

text \<open>
  \<open>Object.entries\<close> of an object whose keys are numbers: the keys that are array
  indices come first, in ascending order, then the other keys in insertion order.
\<close>

definition isArrayIndex :: "int \<Rightarrow> bool" where
  "isArrayIndex k = (0 \<le> k \<and> k < 4294967295)"

definition objectEntries :: "(int \<times> 'a) list \<Rightarrow> (int \<times> 'a) list" where
  "objectEntries kvs =
     sort_key fst (filter (\<lambda>e. isArrayIndex (fst e)) kvs) @
     filter (\<lambda>e. \<not> isArrayIndex (fst e)) kvs"

text \<open>
  The test of the inner loop: \<open>recv.amountUSDC * 0.05\<close> is the rounded product with the
  double that the literal \<open>0.05\<close> denotes, the difference is rounded, and \<open>Math.abs\<close>
  and \<open>\<le>\<close> are exact.
\<close>

definition flashMatch :: "transfer \<Rightarrow> transfer \<Rightarrow> bool" where
  "flashMatch recv send =
     (let tolerance = jsMul (amountUSDC recv) (roundDouble (5 / 100))
      in \<bar>jsSub (amountUSDC recv) (amountUSDC send)\<bar> \<le> tolerance)"

definition flashBlock :: "string \<Rightarrow> int \<times> transfer list \<Rightarrow> suspicious_block list" where
  "flashBlock address entry =
     (case entry of (block, txs) \<Rightarrow>
        (let largeTxs = filter (\<lambda>tx. FLASH_LOAN_MIN_AMOUNT \<le> amountUSDC tx) txs
         in if 2 \<le> length largeTxs
            then (let receivedTxs =
                        filter (\<lambda>tx. toLowerCase (tx_to tx) = toLowerCase address) largeTxs;
                      sentTxs =
                        filter (\<lambda>tx. toLowerCase (tx_from tx) = toLowerCase address) largeTxs
                  in if 0 < length receivedTxs \<and> 0 < length sentTxs
                     then concat (map (\<lambda>recv. concat (map (\<lambda>send.
                            if flashMatch recv send
                            then [\<lparr>sb_blockNumber = block,
                                   receivedAmount = amountUSDC recv,
                                   sentAmount = amountUSDC send,
                                   receivedFrom = tx_from recv, sentTo = tx_to send,
                                   netProfit = jsSub (amountUSDC send) (amountUSDC recv)\<rparr>]
                            else []) sentTxs)) receivedTxs)
                     else [])
            else []))"

definition detectFlashLoanPatterns ::
  "string \<Rightarrow> string \<Rightarrow> transfer list \<Rightarrow> finding option" where
  "detectFlashLoanPatterns address chain transfers =
     (let byBlock = fold blockGroup transfers [];
          suspiciousBlocks = concat (map (flashBlock address) (objectEntries byBlock))
      in if length suspiciousBlocks = 0 then None
         else Some \<lparr>ftype = ''FLASH_LOAN_PATTERN'', f_severity = ''high'', riskImpact = 40,
                     confidence = min 90 (40 + real (length suspiciousBlocks) * 20),
                     f_evidence = FlashEvidence suspiciousBlocks
                                    (reduceSum receivedAmount suspiciousBlocks)\<rparr>)"

paragraph \<open>High velocity\<close>

text \<open>\<open>3600 / (blockTimeEstimate.ethereum || 12)\<close>, whatever the chain.\<close>

definition blocksPerHour :: real where
  "blocksPerHour = 3600 / 12"

text \<open>The inner \<open>while\<close> loop: it returns the new \<open>windowStart\<close>.\<close>

function windowAdvance :: "transfer list \<Rightarrow> nat \<Rightarrow> nat \<Rightarrow> nat" where
  "windowAdvance srt i windowStart =
     (if windowStart < i \<and>
         blocksPerHour < real_of_int (blockNumber (srt ! i) - blockNumber (srt ! windowStart))
      then windowAdvance srt i (windowStart + 1)
      else windowStart)"
  by pat_completeness auto
termination
  by (relation "measure (\<lambda>(srt, i, windowStart). i - windowStart)") auto

declare windowAdvance.simps [simp del]

text \<open>The \<open>for\<close> loop over \<open>i\<close>: it returns the final \<open>maxInWindow\<close>.\<close>

function velocityLoop :: "transfer list \<Rightarrow> nat \<Rightarrow> nat \<Rightarrow> int \<Rightarrow> int" where
  "velocityLoop srt i windowStart maxInWindow =
     (if i < length srt
      then (let ws = windowAdvance srt i windowStart
            in velocityLoop srt (i + 1) ws (max maxInWindow (int i - int ws + 1)))
      else maxInWindow)"
  by pat_completeness auto
termination
  by (relation "measure (\<lambda>(srt, i, windowStart, maxInWindow). length srt - i)") auto

declare velocityLoop.simps [simp del]

definition detectHighVelocity :: "string \<Rightarrow> transfer list \<Rightarrow> finding option" where
  "detectHighVelocity address transfers =
     (if length transfers < HIGH_VELOCITY_TXS_PER_HOUR then None
      else (let srt = sort_key blockNumber transfers;
                maxInWindow = velocityLoop srt 0 0 0
            in if maxInWindow < int HIGH_VELOCITY_TXS_PER_HOUR then None
               else Some \<lparr>ftype = ''HIGH_VELOCITY'', f_severity = ''medium'', riskImpact = 20,
                           confidence =
                             min 85 (30 + (real_of_int maxInWindow /
                                           real HIGH_VELOCITY_TXS_PER_HOUR) * 30),
                           f_evidence = VelocityEvidence maxInWindow (length transfers)\<rparr>))"

paragraph \<open>Circular flows\<close>

definition circularEntry :: "string \<Rightarrow> transfer list \<Rightarrow> string \<Rightarrow> circular" where
  "circularEntry addr transfers cp =
     (let sentTxs = filter (\<lambda>t. toLowerCase (tx_from t) = addr \<and> toLowerCase (tx_to t) = cp)
                      transfers;
          recvTxs = filter (\<lambda>t. toLowerCase (tx_to t) = addr \<and> toLowerCase (tx_from t) = cp)
                      transfers;
          totalSent = reduceSum amountUSDC sentTxs;
          totalRecv = reduceSum amountUSDC recvTxs
      in \<lparr>c_counterparty = cp, totalSent = totalSent, totalReceived = totalRecv,
          netFlow = totalRecv - totalSent,
          cycleCount = min (length sentTxs) (length recvTxs)\<rparr>)"

definition detectCircularFlows :: "string \<Rightarrow> transfer list \<Rightarrow> finding option" where
  "detectCircularFlows address transfers =
     (let addr = toLowerCase address;
          sentTo = fold (\<lambda>tx s. if toLowerCase (tx_from tx) = addr
                                 then set_add (toLowerCase (tx_to tx)) s else s) transfers [];
          receivedFrom = fold (\<lambda>tx s. if toLowerCase (tx_from tx) = addr
                                       then s else set_add (toLowerCase (tx_from tx)) s)
                           transfers [];
          directCircular = map (circularEntry addr transfers)
                             (filter (\<lambda>cp. cp \<in> set receivedFrom) sentTo);
          significantCircular =
            filter (\<lambda>c. 2 \<le> cycleCount c \<and> 100 < totalSent c) directCircular
      in if length significantCircular = 0 then None
         else Some \<lparr>ftype = ''CIRCULAR_FLOW'',
                     f_severity = (if \<exists>c \<in> set significantCircular. 10000 < totalSent c
                                   then ''high'' else ''medium''),
                     riskImpact = min 30 (10 + int (length significantCircular) * 5),
                     confidence = min 80 (30 + real (length significantCircular) * 10),
                     f_evidence = CircularEvidence significantCircular
                       (reduceSum (\<lambda>c. totalSent c + totalReceived c) significantCircular)\<rparr>)"

paragraph \<open>Large transfers\<close>

definition detectLargeTransfers :: "string \<Rightarrow> transfer list \<Rightarrow> finding option" where
  "detectLargeTransfers address transfers =
     (let large = filter (\<lambda>tx. LARGE_TRANSFER_USDC \<le> amountUSDC tx) transfers
      in if length large = 0 then None
         else (let totalLargeVolume = reduceSum amountUSDC large
               in Some \<lparr>ftype = ''LARGE_TRANSFERS'',
                         f_severity = (if 1000000 < totalLargeVolume then ''high'' else ''medium''),
                         riskImpact = (if 1000000 < totalLargeVolume then 25 else 10),
                         confidence = 100,
                         f_evidence = LargeEvidence
                           (map (\<lambda>tx. \<lparr>lt_txHash = txHash tx, lt_amount = amountUSDC tx,
                                        lt_from = tx_from tx, lt_to = tx_to tx,
                                        lt_blockNumber = blockNumber tx\<rparr>) large)
                           totalLargeVolume\<rparr>))"

paragraph \<open>All detectors\<close>

record pattern_summary =
  patternsDetected :: nat
  highestSeverity :: int
  categories :: "string list"

record pattern_results =
  pr_address :: string
  pr_chain :: string
  pr_patterns :: "finding list"
  totalTransfers :: nat
  pr_summary :: pattern_summary

definition pushFound :: "'a option \<Rightarrow> 'a list \<Rightarrow> 'a list" where
  "pushFound r xs = (case r of None \<Rightarrow> xs | Some x \<Rightarrow> xs @ [x])"

definition analyzePatterns :: "string \<Rightarrow> string \<Rightarrow> transfer list \<Rightarrow> pattern_results" where
  "analyzePatterns address chain transfers =
     (let washTrade = detectWashTrading address transfers;
          flashLoan = detectFlashLoanPatterns address chain transfers;
          velocity = detectHighVelocity address transfers;
          circ = detectCircularFlows address transfers;
          largeTransfer = detectLargeTransfers address transfers;
          found = pushFound largeTransfer (pushFound circ (pushFound velocity
                    (pushFound flashLoan (pushFound washTrade []))))
      in \<lparr>pr_address = toLowerCase address, pr_chain = chain, pr_patterns = found,
          totalTransfers = length transfers,
          pr_summary = \<lparr>patternsDetected = length found,
                         highestSeverity = fold (\<lambda>p mx. max mx (riskImpact p)) found 0,
                         categories = map ftype found\<rparr>\<rparr>)"

subsection \<open>CCTPAnalyzer (lib/cctp-analyzer.js)\<close>

definition chainGroup ::
  "deposit \<Rightarrow> (string \<times> deposit list) list \<Rightarrow> (string \<times> deposit list) list" where
  "chainGroup d byChain =
     AList.update (sourceChain d)
       ((case map_of byChain (sourceChain d) of None \<Rightarrow> [] | Some ds \<Rightarrow> ds) @ [d])
       byChain"

text \<open>
  The inner loop over \<open>j\<close> for a fixed \<open>i\<close>: \<open>count\<close> starts at 1 and grows while the
  next deposit of the sorted list is at most 50 blocks after the \<open>i\<close>-th.
\<close>

definition burstAt :: "deposit list \<Rightarrow> nat \<Rightarrow> nat" where
  "burstAt srt i =
     1 + length (takeWhile (\<lambda>d. dep_blockNumber d - dep_blockNumber (srt ! i) \<le> 50)
                   (drop (i + 1) srt))"

text \<open>The loop over \<open>i\<close> for one chain, updating \<open>maxBursts\<close>.\<close>

definition chainBursts :: "deposit list \<Rightarrow> nat \<Rightarrow> nat" where
  "chainBursts chainDeposits maxBursts =
     (let srt = sort_key dep_blockNumber chainDeposits
      in fold (\<lambda>i m. max m (burstAt srt i)) [0..<length srt] maxBursts)"

definition maxBurstsOf :: "deposit list \<Rightarrow> nat" where
  "maxBurstsOf deposits =
     (let byChain = fold chainGroup deposits []
      in fold (\<lambda>entry m. chainBursts (snd entry) m) byChain 0)"

definition detectRapidBridging :: "deposit list \<Rightarrow> finding option" where
  "detectRapidBridging deposits =
     (if length deposits < 3 then None
      else (let maxBursts = maxBurstsOf deposits
            in if maxBursts < 3 then None
               else Some \<lparr>ftype = ''RAPID_BRIDGING'',
                           f_severity = (if 5 \<le> maxBursts then ''high'' else ''medium''),
                           riskImpact = min 35 (15 + int maxBursts * 5),
                           confidence = min 85 (40 + real maxBursts * 10),
                           f_evidence = RapidEvidence maxBursts (length deposits)\<rparr>))"

definition detectChainHopping :: "deposit list \<Rightarrow> finding option" where
  "detectChainHopping deposits =
     (let chainsUsed = fold set_add (map sourceChain deposits) []
      in if length chainsUsed < 3 then None
         else Some \<lparr>ftype = ''CHAIN_HOPPING'', f_severity = ''medium'', riskImpact = 20,
                     confidence = 60,
                     f_evidence = HoppingEvidence chainsUsed (length deposits)\<rparr>)"

text \<open>
  \<open>_detectRoundTrip\<close> reads the balances and then returns \<open>null\<close> whatever they are.
\<close>

definition detectRoundTrip :: "world \<Rightarrow> string \<Rightarrow> string list \<Rightarrow> finding option" where
  "detectRoundTrip w address chainList = None"

record cctp_summary =
  totalCCTPTransactions :: nat
  hasCCTPActivity :: bool

record cross_chain =
  cc_address :: string
  cc_chains :: "string list"
  cctpActivity :: "deposit list"
  cc_patterns :: "finding list"
  cc_riskFactors :: "risk_factor list"
  cc_summary :: cctp_summary

definition pushPattern ::
  "factor_name \<Rightarrow> finding option \<Rightarrow> cross_chain \<Rightarrow> cross_chain" where
  "pushPattern name r res =
     (case r of
        None \<Rightarrow> res
      | Some f \<Rightarrow> res\<lparr>cc_patterns := cc_patterns res @ [f],
                       cc_riskFactors := cc_riskFactors res @
                         [\<lparr>factor = name, impact = riskImpact f\<rparr>]\<rparr>)"

definition analyzeCrossChainActivity :: "world \<Rightarrow> string \<Rightarrow> string list \<Rightarrow> cross_chain" where
  "analyzeCrossChainActivity w address chainList =
     (let allDeposits =
            concat (map (\<lambda>chain.
              case rpc_getCCTPDeposits w chain address of
                Inl err \<Rightarrow> []
              | Inr deposits \<Rightarrow> map (\<lambda>d. d\<lparr>sourceChain := chain\<rparr>) deposits) chainList);
          res0 = \<lparr>cc_address = toLowerCase address, cc_chains = chainList,
                  cctpActivity = allDeposits, cc_patterns = [], cc_riskFactors = [],
                  cc_summary = \<lparr>totalCCTPTransactions = length allDeposits,
                                 hasCCTPActivity = (length allDeposits \<noteq> 0)\<rparr>\<rparr>
      in if length allDeposits = 0 then res0
         else pushPattern RoundTripDetected (detectRoundTrip w address chainList)
                (pushPattern ChainHoppingDetected (detectChainHopping allDeposits)
                   (pushPattern RapidBridgingDetected (detectRapidBridging allDeposits) res0)))"

subsection \<open>USDCSecurityScanner (index.js)\<close>

definition isHexDigit :: "char \<Rightarrow> bool" where
  "isHexDigit c =
     (let n = (of_char c :: nat)
      in (48 \<le> n \<and> n \<le> 57) \<or> (97 \<le> n \<and> n \<le> 102) \<or> (65 \<le> n \<and> n \<le> 70))"

text \<open>\<open>_validateAddress\<close>: the test \<open>/^0x[0-9a-fA-F]{40}$/\<close>; it throws or returns.\<close>

definition validateAddress :: "string \<Rightarrow> string + unit" where
  "validateAddress address =
     (if address = [] then Inl ''Address is required and must be a string''
      else if take 2 address = ''0x'' \<and> length address = 42 \<and>
              list_all isHexDigit (drop 2 address)
      then Inr ()
      else Inl (''Invalid Ethereum address: '' @ address))"

datatype chains_arg = ChainName string | ChainList "string list"

text \<open>\<open>_resolveChains(options.chains || 'all')\<close>: an absent or empty value is \<open>'all'\<close>.\<close>

definition resolveChains :: "chains_arg option \<Rightarrow> string list" where
  "resolveChains arg =
     (case arg of
        None \<Rightarrow> SUPPORTED_CHAINS
      | Some (ChainName c) \<Rightarrow>
          if c = [] \<or> c = ''all'' then SUPPORTED_CHAINS else [c]
      | Some (ChainList cs) \<Rightarrow> filter (\<lambda>c. c \<in> set SUPPORTED_CHAINS) cs)"

definition scoreToLevel :: "int \<Rightarrow> string" where
  "scoreToLevel score =
     (if 90 \<le> score then ''CRITICAL''
      else if 70 \<le> score then ''HIGH''
      else if 40 \<le> score then ''MEDIUM''
      else if 10 \<le> score then ''LOW''
      else ''CLEAN'')"

record scan_options =
  so_chains :: "chains_arg option"
  so_depth :: "string option"

record scan_result =
  sr_address :: string
  sr_chains :: "string \<rightharpoonup> profile"
  sr_patterns :: "finding list"
  cctpAnalysis :: "cross_chain option"
  sr_reputation :: reputation
  overallScore :: int
  level :: string
  scanDepth :: string

text \<open>\<open>options.depth || 'standard'\<close>.\<close>

definition depthOption :: "string option \<Rightarrow> string" where
  "depthOption d = (case d of None \<Rightarrow> ''standard'' | Some x \<Rightarrow> if x = [] then ''standard'' else x)"

text \<open>One task of the \<open>Promise.allSettled\<close> over the chains in \<open>scanAddress\<close>.\<close>

definition chainPatterns :: "world \<Rightarrow> string \<Rightarrow> string \<Rightarrow> finding list" where
  "chainPatterns w address chain =
     (let transfers = (case rpc_getUSDCTransfers w chain address of
                         Inl err \<Rightarrow> [] | Inr ts \<Rightarrow> ts)
      in if length transfers = 0 then []
         else pr_patterns (analyzePatterns address chain transfers))"

definition scanAddress ::
  "world \<Rightarrow> checker \<Rightarrow> string \<Rightarrow> scan_options \<Rightarrow> string + scan_result \<times> checker" where
  "scanAddress w st address options =
     (case validateAddress address of
        Inl err \<Rightarrow> Inl err
      | Inr u \<Rightarrow>
          (let chainList = resolveChains (so_chains options);
               depth = depthOption (so_depth options)
           in case checkerGetReputation w st address chainList of (rep, st1) \<Rightarrow>
                (let r1 = \<lparr>sr_address = toLowerCase address, sr_chains = rep_chains rep,
                           sr_patterns = [], cctpAnalysis = None, sr_reputation = rep,
                           overallScore = rep_overallScore rep, level = ''CLEAN'',
                           scanDepth = depth\<rparr>;
                     r2 = (if depth \<noteq> ''quick''
                           then (let found = concat (map (chainPatterns w address) chainList);
                                     patternRisk = reduceSum riskImpact found
                                 in r1\<lparr>sr_patterns := found,
                                       overallScore := min 100 (overallScore r1 + patternRisk)\<rparr>)
                           else r1);
                     r3 = (if depth = ''deep''
                           then (let cc = analyzeCrossChainActivity w address chainList;
                                     r = r2\<lparr>cctpAnalysis := Some cc\<rparr>
                                 in if 0 < length (cc_riskFactors cc)
                                    then r\<lparr>overallScore :=
                                            min 100 (overallScore r +
                                                     reduceSum impact (cc_riskFactors cc))\<rparr>
                                    else r)
                           else r2)
                 in Inr (r3\<lparr>level := scoreToLevel (overallScore r3)\<rparr>, st1))))"

datatype recommendation_tier =
    NoRecommendation | DoNotSend | HighRisk | ProceedWithCaution | LowRisk | AppearsSafe

record check_entry =
  check_name :: string
  check_result :: string

record validation =
  v_recipient :: string
  v_chain :: string
  v_amount :: real
  v_overallScore :: int
  v_level :: string
  safe :: bool
  v_flags :: "string list"
  v_scamMatch :: "scam_info option"
  recommendation :: recommendation_tier
  checks :: "check_entry list"
  v_profile :: "profile option"

record transfer_options =
  to_amount :: "real option"
  to_chain :: "string option"

definition ZERO_ADDRESS :: string where
  "ZERO_ADDRESS = ''0x0000000000000000000000000000000000000000''"

definition DEAD_ADDRESS :: string where
  "DEAD_ADDRESS = ''0x000000000000000000000000000000000000dead''"

text \<open>
  \<open>validateTransfer\<close>, one definition for each of its numbered checks.
  \<open>analyzeAddressProfile\<close> lets no exception escape, so the \<open>catch\<close> after check 3
  has no branch here; checks 2 and 3 always run.
\<close>

definition checkScamStep :: "checker \<Rightarrow> string \<Rightarrow> validation \<Rightarrow> validation" where
  "checkScamStep st recipient v =
     (case checkScamDatabase st recipient of
        Some m \<Rightarrow>
          v\<lparr>v_scamMatch := Some m, v_overallScore := riskScore m, safe := False,
            v_flags := v_flags v @ [''KNOWN_'' @ toUpperCase (category m)],
            checks := checks v @ [\<lparr>check_name = ''Scam Database'', check_result = ''FAIL''\<rparr>]\<rparr>
      | None \<Rightarrow>
          v\<lparr>checks := checks v @ [\<lparr>check_name = ''Scam Database'', check_result = ''PASS''\<rparr>]\<rparr>)"

definition checkProfileStep :: "profile \<Rightarrow> validation \<Rightarrow> validation" where
  "checkProfileStep prof v =
     v\<lparr>v_profile := Some prof,
       v_overallScore :=
         fold (\<lambda>rf score. min 100 (score + impact rf)) (p_riskFactors prof) (v_overallScore v),
       v_flags := v_flags v @ p_flags prof,
       checks := checks v @
         [\<lparr>check_name = ''Address Profile'',
           check_result = (if 0 < length (p_flags prof) then ''WARN'' else ''PASS'')\<rparr>]\<rparr>"

definition checkBurnStep :: "string \<Rightarrow> validation \<Rightarrow> validation" where
  "checkBurnStep recipient v =
     (if toLowerCase recipient = ZERO_ADDRESS \<or> toLowerCase recipient = DEAD_ADDRESS
      then v\<lparr>v_overallScore := 100, safe := False,
              v_flags := v_flags v @ [''BURN_ADDRESS''],
              checks := checks v @ [\<lparr>check_name = ''Burn Address'', check_result = ''FAIL''\<rparr>]\<rparr>
      else v)"

definition checkLargeStep ::
  "world \<Rightarrow> checker \<Rightarrow> string \<Rightarrow> string \<Rightarrow> real \<Rightarrow> validation \<Rightarrow> validation" where
  "checkLargeStep w st recipient chain amount v =
     (if LARGE_TRANSFER_USDC \<le> amount
      then (let v1 = v\<lparr>v_flags := v_flags v @ [''LARGE_TRANSFER''],
                       checks := checks v @
                         [\<lparr>check_name = ''Large Transfer'', check_result = ''WARN''\<rparr>]\<rparr>;
                interactions = checkScamInteractions w st recipient chain
            in if 0 < length interactions
               then v1\<lparr>v_overallScore := min 100 (v_overallScore v1 + 30),
                       v_flags := v_flags v1 @ [''SCAM_INTERACTIONS''],
                       safe := False,
                       checks := checks v1 @
                         [\<lparr>check_name = ''Scam Interactions'', check_result = ''FAIL''\<rparr>]\<rparr>
               else v1)
      else v)"

definition finalSafety :: "validation \<Rightarrow> validation" where
  "finalSafety v =
     (let v1 = v\<lparr>v_overallScore := min 100 (v_overallScore v)\<rparr>;
          v2 = v1\<lparr>v_level := scoreToLevel (v_overallScore v1)\<rparr>
      in if 70 \<le> v_overallScore v2 then v2\<lparr>safe := False\<rparr> else v2)"

definition recommend :: "validation \<Rightarrow> validation" where
  "recommend v =
     v\<lparr>recommendation :=
         (if \<not> safe v
          then (if v_scamMatch v \<noteq> None then DoNotSend else HighRisk)
          else if 40 \<le> v_overallScore v then ProceedWithCaution
          else if 10 \<le> v_overallScore v then LowRisk
          else AppearsSafe)\<rparr>"

definition validateTransfer ::
  "world \<Rightarrow> checker \<Rightarrow> string \<Rightarrow> transfer_options \<Rightarrow> string + validation \<times> checker" where
  "validateTransfer w st recipient options =
     (case validateAddress recipient of
        Inl err \<Rightarrow> Inl err
      | Inr u \<Rightarrow>
          (let chain = (case to_chain options of
                          None \<Rightarrow> ''base''
                        | Some c \<Rightarrow> if c = [] then ''base'' else c);
               amount = (case to_amount options of None \<Rightarrow> 0 | Some a \<Rightarrow> a);
               v0 = \<lparr>v_recipient = toLowerCase recipient, v_chain = chain, v_amount = amount,
                      v_overallScore = 0, v_level = ''CLEAN'', safe = True, v_flags = [],
                      v_scamMatch = None, recommendation = NoRecommendation, checks = [],
                      v_profile = None\<rparr>;
               v1 = checkScamStep st recipient v0
           in case analyzeAddressProfile w st recipient chain of (prof, st1) \<Rightarrow>
                Inr (recommend (finalSafety
                       (checkLargeStep w st1 recipient chain amount
                          (checkBurnStep recipient (checkProfileStep prof v1)))), st1)))"

text \<open>\<open>getReputation\<close> of the scanner: validation, then the checker's reputation.\<close>

definition getReputation ::
  "world \<Rightarrow> checker \<Rightarrow> string \<Rightarrow> chains_arg option \<Rightarrow> string + reputation \<times> checker" where
  "getReputation w st address chainsArg =
     (case validateAddress address of
        Inl err \<Rightarrow> Inl err
      | Inr u \<Rightarrow> Inr (checkerGetReputation w st address (resolveChains chainsArg)))"

subsection \<open>Invariants and the notions the properties are stated with\<close>

text \<open>
  Every impact the code creates is a non-negative constant.  A cached profile is one that
  \<open>analyzeAddressProfile\<close> stored, so the cache holds only such profiles; the invariant
  says so for a state given from outside.
\<close>

definition profile_ok :: "profile \<Rightarrow> bool" where
  "profile_ok p = list_all (\<lambda>rf. 0 \<le> impact rf) (p_riskFactors p)"

definition cache_ok :: "checker \<Rightarrow> bool" where
  "cache_ok st = (\<forall>key entry. cache st key = Some entry \<longrightarrow> profile_ok (ce_value entry))"

definition factors_ok :: "risk_factor list \<Rightarrow> bool" where
  "factors_ok fs = list_all (\<lambda>rf. 0 \<le> impact rf) fs"

definition findings_ok :: "finding list \<Rightarrow> bool" where
  "findings_ok fs = list_all (\<lambda>f. 0 \<le> riskImpact f) fs"

definition score_ok :: "validation \<Rightarrow> bool" where
  "score_ok v = (0 \<le> v_overallScore v \<and> v_overallScore v \<le> 100)"


text \<open>The names of the bands of \<open>RISK_LEVELS\<close> that contain a score.\<close>

definition levelBand :: "int \<Rightarrow> string list" where
  "levelBand score =
     map fst (filter (\<lambda>e. band_min (snd e) \<le> score \<and> score \<le> band_max (snd e)) RISK_LEVELS)"

text \<open>
  The score a scan ends with, from the score of the reputation stage, the findings of the
  pattern stage and the result of the CCTP stage: each stage adds its impacts and caps the
  sum at 100.
\<close>

definition scanScoreOf :: "string \<Rightarrow> int \<Rightarrow> finding list \<Rightarrow> cross_chain option \<Rightarrow> int" where
  "scanScoreOf depth repScore found cc =
     (let s1 = (if depth \<noteq> ''quick'' then min 100 (repScore + sum_list (map riskImpact found))
                else repScore)
      in case cc of
           None \<Rightarrow> s1
         | Some c \<Rightarrow> if cc_riskFactors c = [] then s1
                      else min 100 (s1 + sum_list (map impact (cc_riskFactors c))))"

paragraph \<open>Wash trading, as the specification words it\<close>

text \<open>
  The counterparty of a transfer, the transfers the address sent to a counterparty, the
  transfers it received from it (every transfer the address did not send counts as
  received from its sender), and the number of (sent, received) pairs whose amounts differ
  by at most 1% of the sent amount.
\<close>

definition counterpartyOf :: "string \<Rightarrow> transfer \<Rightarrow> string" where
  "counterpartyOf addr tx =
     (if toLowerCase (tx_from tx) = addr then toLowerCase (tx_to tx) else toLowerCase (tx_from tx))"

definition outgoing :: "string \<Rightarrow> transfer list \<Rightarrow> string \<Rightarrow> transfer list" where
  "outgoing addr ts cp =
     filter (\<lambda>tx. toLowerCase (tx_from tx) = addr \<and> toLowerCase (tx_to tx) = cp) ts"

definition incoming :: "string \<Rightarrow> transfer list \<Rightarrow> string \<Rightarrow> transfer list" where
  "incoming addr ts cp =
     filter (\<lambda>tx. toLowerCase (tx_from tx) \<noteq> addr \<and> toLowerCase (tx_from tx) = cp) ts"

definition withinOnePercent :: "transfer \<times> transfer \<Rightarrow> bool" where
  "withinOnePercent p = (\<bar>amountUSDC (fst p) - amountUSDC (snd p)\<bar> \<le> amountUSDC (fst p) / 100)"

definition pairCount :: "string \<Rightarrow> transfer list \<Rightarrow> string \<Rightarrow> nat" where
  "pairCount addr ts cp =
     length (filter withinOnePercent (List.product (outgoing addr ts cp) (incoming addr ts cp)))"

text \<open>Names for the intermediate values of \<open>detectWashTrading\<close>, used in the proofs.\<close>

definition flowsOf :: "(string \<times> flows) list \<Rightarrow> string \<Rightarrow> flows" where
  "flowsOf g cp = (case map_of g cp of None \<Rightarrow> \<lparr>sent = [], received = []\<rparr> | Some fl \<Rightarrow> fl)"

definition washGroups :: "string \<Rightarrow> transfer list \<Rightarrow> (string \<times> flows) list" where
  "washGroups addr ts = fold (washGroup addr) ts []"

definition suspiciousEntry :: "string \<Rightarrow> transfer list \<Rightarrow> string \<Rightarrow> suspicious_pair" where
  "suspiciousEntry addr ts cp =
     \<lparr>sp_counterparty = cp, sentCount = length (outgoing addr ts cp),
      receivedCount = length (incoming addr ts cp),
      matchingAmountCycles = pairCount addr ts cp,
      sp_totalVolume = reduceSum amountUSDC (outgoing addr ts cp @ incoming addr ts cp)\<rparr>"

definition washSuspicious :: "string \<Rightarrow> transfer list \<Rightarrow> suspicious_pair list" where
  "washSuspicious addr ts = concat (map washPair (washGroups addr ts))"

definition suspiciousKeys :: "string \<Rightarrow> transfer list \<Rightarrow> string list" where
  "suspiciousKeys addr ts =
     filter (\<lambda>cp. 3 \<le> pairCount addr ts cp) (map fst (washGroups addr ts))"

paragraph \<open>Grouping, as the three detectors that group do it\<close>

text \<open>
  \<open>if (!g[k]) g[k] = []; g[k].push(x)\<close> on an object kept as the list of its entries.
\<close>

definition groupPush :: "('a \<Rightarrow> 'k) \<Rightarrow> 'a \<Rightarrow> ('k \<times> 'a list) list \<Rightarrow> ('k \<times> 'a list) list" where
  "groupPush key x g =
     AList.update (key x) ((case map_of g (key x) of None \<Rightarrow> [] | Some xs \<Rightarrow> xs) @ [x]) g"

definition groupBy :: "('a \<Rightarrow> 'k) \<Rightarrow> 'a list \<Rightarrow> ('k \<times> 'a list) list" where
  "groupBy key xs = fold (groupPush key) xs []"

definition bucket :: "('k \<times> 'a list) list \<Rightarrow> 'k \<Rightarrow> 'a list" where
  "bucket g k = (case map_of g k of None \<Rightarrow> [] | Some xs \<Rightarrow> xs)"

paragraph \<open>Flash loans, as the properties state them\<close>

text \<open>
  The transfers of a block that are at least 10 000 USDC, and the number of (received,
  sent) pairs among them whose amounts differ by at most 5% of the received amount,
  counted only when the block holds at least two such transfers.  The difference and the
  5% are the doubles the code computes: \<open>\<bar>received - sent\<bar> \<le> received * 0.05\<close> with
  the subtraction and the multiplication of doubles.
\<close>

definition largeInBlock :: "transfer list \<Rightarrow> int \<Rightarrow> transfer list" where
  "largeInBlock ts b = filter (\<lambda>tx. blockNumber tx = b \<and> 10000 \<le> amountUSDC tx) ts"

definition withinFivePercent :: "transfer \<times> transfer \<Rightarrow> bool" where
  "withinFivePercent p =
     (\<bar>jsSub (amountUSDC (fst p)) (amountUSDC (snd p))\<bar> \<le>
        jsMul (amountUSDC (fst p)) (roundDouble (5 / 100)))"

definition flashPairCount :: "string \<Rightarrow> transfer list \<Rightarrow> int \<Rightarrow> nat" where
  "flashPairCount address ts b =
     (if 2 \<le> length (largeInBlock ts b)
      then length (filter withinFivePercent
             (List.product
                (filter (\<lambda>tx. toLowerCase (tx_to tx) = toLowerCase address) (largeInBlock ts b))
                (filter (\<lambda>tx. toLowerCase (tx_from tx) = toLowerCase address) (largeInBlock ts b))))
      else 0)"

text \<open>
  The blocks that hold a matching pair, and the inputs in which no block holds more than
  one.
\<close>

definition matchedBlocks :: "string \<Rightarrow> transfer list \<Rightarrow> int list" where
  "matchedBlocks address ts =
     filter (\<lambda>b. 0 < flashPairCount address ts b) (remdups (map blockNumber ts))"

definition onePairPerBlock :: "string \<Rightarrow> transfer list \<Rightarrow> bool" where
  "onePairPerBlock address ts =
     list_all (\<lambda>b. flashPairCount address ts b = 1) (matchedBlocks address ts)"

text \<open>The value of \<open>suspiciousBlocks\<close> in \<open>detectFlashLoanPatterns\<close>.\<close>

definition flashHits :: "string \<Rightarrow> transfer list \<Rightarrow> suspicious_block list" where
  "flashHits address ts =
     concat (map (flashBlock address) (objectEntries (groupBy blockNumber ts)))"

text \<open>
  The reading of claim C5 as it is stated: a received and a sent transfer match when
  received \<open>\<ge>\<close> sent \<open>-\<close> tolerance, and the confidence counts the blocks that hold
  a matching pair.
\<close>

definition claimFlashMatch :: "transfer \<Rightarrow> transfer \<Rightarrow> bool" where
  "claimFlashMatch recv send = (amountUSDC send - amountUSDC recv * 5 / 100 \<le> amountUSDC recv)"

definition claimMatchedBlocks :: "string \<Rightarrow> transfer list \<Rightarrow> int list" where
  "claimMatchedBlocks address ts =
     remdups (map blockNumber (filter (\<lambda>recv.
        10000 \<le> amountUSDC recv \<and> toLowerCase (tx_to recv) = toLowerCase address \<and>
        (\<exists>send\<in>set ts. blockNumber send = blockNumber recv \<and> 10000 \<le> amountUSDC send \<and>
           toLowerCase (tx_from send) = toLowerCase address \<and> claimFlashMatch recv send)) ts))"

paragraph \<open>Rapid bridging, as the properties state it\<close>

text \<open>
  The number of deposits of a source chain whose block numbers lie in the window from
  \<open>lo\<close> to \<open>lo + 50\<close>.
\<close>

definition bridgeWindow :: "deposit list \<Rightarrow> string \<Rightarrow> int \<Rightarrow> nat" where
  "bridgeWindow ds c lo =
     length (filter (\<lambda>d. sourceChain d = c \<and> lo \<le> dep_blockNumber d \<and>
                         dep_blockNumber d \<le> lo + 50) ds)"

text \<open>The sorted deposits of one chain, as \<open>_detectRapidBridging\<close> sorts them.\<close>

definition chainDepositsOf :: "deposit list \<Rightarrow> string \<Rightarrow> deposit list" where
  "chainDepositsOf ds c = sort_key dep_blockNumber (filter (\<lambda>d. sourceChain d = c) ds)"

paragraph \<open>High velocity, as the properties state it\<close>

text \<open>
  The number of transfers whose block numbers lie in the window that ends at \<open>hi\<close> and
  spans \<open>blocksPerHour = 300\<close> blocks, and the value \<open>maxInWindow\<close> has after the loop
  of \<open>detectHighVelocity\<close>.
\<close>

definition velocityWindow :: "transfer list \<Rightarrow> int \<Rightarrow> nat" where
  "velocityWindow ts hi =
     length (filter (\<lambda>tx. hi - 300 \<le> blockNumber tx \<and> blockNumber tx \<le> hi) ts)"

definition maxInWindowOf :: "transfer list \<Rightarrow> int" where
  "maxInWindowOf ts = velocityLoop (sort_key blockNumber ts) 0 0 0"

text \<open>
  The number of transfers up to position \<open>i\<close> of the sorted list that are at most 300
  blocks before the \<open>i\<close>-th; the loop computes it as \<open>i - windowStart + 1\<close>.
\<close>

definition windowCount :: "transfer list \<Rightarrow> nat \<Rightarrow> nat" where
  "windowCount srt i =
     length (filter (\<lambda>tx. blockNumber (srt ! i) - 300 \<le> blockNumber tx) (take (Suc i) srt))"

subsection \<open>Sample inputs\<close>

definition failingWorld :: world where
  "failingWorld =
     \<lparr>rpc_isContract = (\<lambda>c a. Inr True),
      rpc_getTransactionCount = (\<lambda>c a. Inr 42),
      rpc_getUSDCBalance = (\<lambda>c a. Inl ''RPC timeout for base''),
      rpc_getBalance = (\<lambda>c a. Inr 0),
      rpc_getUSDCTransfers = (\<lambda>c a. Inr []),
      rpc_getCCTPDeposits = (\<lambda>c a. Inr []),
      dateNow = (\<lambda>k. 1000 * int k)\<rparr>"

definition cleanAddress :: string where
  "cleanAddress = ''0x1111111111111111111111111111111111111111''"

definition roninExploiter :: string where
  "roninExploiter = ''0x098B716B8Aaf21512996dC57EB0615e2383E2f96''"

definition roninInfo :: scam_entry where
  "roninInfo =
     \<lparr>e_label = ''Ronin Bridge Exploiter'', e_category = ''exploit'',
      e_severity = ''critical'', e_chain = [''ethereum''],
      e_details = ''Ronin bridge exploit'', e_reportedAt = ''2022-03-29''\<rparr>"

definition sampleRegistry :: "(string \<times> scam_entry) list" where
  "sampleRegistry = [(roninExploiter, roninInfo)]"


definition oneLargeTransfer :: "transfer list" where
  "oneLargeTransfer =
     [\<lparr>txHash = ''0x1'', blockNumber = 1000, tx_from = roninExploiter, tx_to = ''0xbbbb'',
       amountUSDC = 100000, logIndex = 0\<rparr>]"

definition largeTransferWorld :: world where
  "largeTransferWorld =
     \<lparr>rpc_isContract = (\<lambda>c a. Inr False),
      rpc_getTransactionCount = (\<lambda>c a. Inr 500),
      rpc_getUSDCBalance = (\<lambda>c a. Inr 0),
      rpc_getBalance = (\<lambda>c a. Inr 1000000000000000000),
      rpc_getUSDCTransfers = (\<lambda>c a. Inr oneLargeTransfer),
      rpc_getCCTPDeposits = (\<lambda>c a. Inr []),
      dateNow = (\<lambda>k. 1000 * int k)\<rparr>"

definition standardEthereum :: scan_options where
  "standardEthereum =
     \<lparr>so_chains = Some (ChainList [''ethereum'']), so_depth = Some ''standard''\<rparr>"

definition deadMixedCase :: string where
  "deadMixedCase = ''0x000000000000000000000000000000000000dEaD''"

definition largeOnBase :: transfer_options where
  "largeOnBase = \<lparr>to_amount = Some 60000, to_chain = Some ''base''\<rparr>"

definition washAddress :: string where
  "washAddress = ''0xaaaaaaaaaaaaaaaaaaaaaaaaaaaaaaaaaaaaaaaa''"

definition washCounterparty :: string where
  "washCounterparty = ''0xbbbbbbbbbbbbbbbbbbbbbbbbbbbbbbbbbbbbbbbb''"

definition fiveRoundTrips :: "transfer list" where
  "fiveRoundTrips =
     [\<lparr>txHash = ''0x0a'', blockNumber = 1000, tx_from = washAddress, tx_to = washCounterparty, amountUSDC = 1000, logIndex = 0\<rparr>,
      \<lparr>txHash = ''0x0b'', blockNumber = 1001, tx_from = washCounterparty, tx_to = washAddress, amountUSDC = 1000, logIndex = 0\<rparr>,
      \<lparr>txHash = ''0x1a'', blockNumber = 1001, tx_from = washAddress, tx_to = washCounterparty, amountUSDC = 1000, logIndex = 0\<rparr>,
      \<lparr>txHash = ''0x1b'', blockNumber = 1002, tx_from = washCounterparty, tx_to = washAddress, amountUSDC = 1000, logIndex = 0\<rparr>,
      \<lparr>txHash = ''0x2a'', blockNumber = 1002, tx_from = washAddress, tx_to = washCounterparty, amountUSDC = 1000, logIndex = 0\<rparr>,
      \<lparr>txHash = ''0x2b'', blockNumber = 1003, tx_from = washCounterparty, tx_to = washAddress, amountUSDC = 1000, logIndex = 0\<rparr>,
      \<lparr>txHash = ''0x3a'', blockNumber = 1003, tx_from = washAddress, tx_to = washCounterparty, amountUSDC = 1000, logIndex = 0\<rparr>,
      \<lparr>txHash = ''0x3b'', blockNumber = 1004, tx_from = washCounterparty, tx_to = washAddress, amountUSDC = 1000, logIndex = 0\<rparr>,
      \<lparr>txHash = ''0x4a'', blockNumber = 1004, tx_from = washAddress, tx_to = washCounterparty, amountUSDC = 1000, logIndex = 0\<rparr>,
      \<lparr>txHash = ''0x4b'', blockNumber = 1005, tx_from = washCounterparty, tx_to = washAddress, amountUSDC = 1000, logIndex = 0\<rparr>]"

definition twoRoundTrips :: "transfer list" where
  "twoRoundTrips =
     [\<lparr>txHash = ''0x0a'', blockNumber = 1000, tx_from = washAddress, tx_to = washCounterparty, amountUSDC = 1000, logIndex = 0\<rparr>,
      \<lparr>txHash = ''0x0b'', blockNumber = 1001, tx_from = washCounterparty, tx_to = washAddress, amountUSDC = 1000, logIndex = 0\<rparr>,
      \<lparr>txHash = ''0x1a'', blockNumber = 1001, tx_from = washAddress, tx_to = washCounterparty, amountUSDC = 1000, logIndex = 0\<rparr>,
      \<lparr>txHash = ''0x1b'', blockNumber = 1002, tx_from = washCounterparty, tx_to = washAddress, amountUSDC = 1000, logIndex = 0\<rparr>]"

definition threeOneWay :: "transfer list" where
  "threeOneWay =
     [\<lparr>txHash = ''0x1'', blockNumber = 1000, tx_from = washAddress, tx_to = ''0xbbbb'', amountUSDC = 1000, logIndex = 0\<rparr>,
      \<lparr>txHash = ''0x2'', blockNumber = 2000, tx_from = ''0xcccc'', tx_to = washAddress, amountUSDC = 500, logIndex = 0\<rparr>,
      \<lparr>txHash = ''0x3'', blockNumber = 3000, tx_from = washAddress, tx_to = ''0xdddd'', amountUSDC = 2000, logIndex = 0\<rparr>]"

definition flashAddress :: string where
  "flashAddress = ''0xaaaaaaaaaaaaaaaaaaaaaaaaaaaaaaaaaaaaaaaa''"

definition sameBlockPair :: "transfer list" where
  "sameBlockPair =
     [\<lparr>txHash = ''0x1'', blockNumber = 5000, tx_from = ''0xbbbb'', tx_to = flashAddress, amountUSDC = 50000, logIndex = 0\<rparr>,
      \<lparr>txHash = ''0x1'', blockNumber = 5000, tx_from = flashAddress, tx_to = ''0xbbbb'', amountUSDC = 50100, logIndex = 1\<rparr>]"

definition twoReceivesOneSend :: "transfer list" where
  "twoReceivesOneSend =
     [\<lparr>txHash = ''0x1'', blockNumber = 5000, tx_from = ''0xbbbb'', tx_to = flashAddress, amountUSDC = 50000, logIndex = 0\<rparr>,
      \<lparr>txHash = ''0x2'', blockNumber = 5000, tx_from = ''0xcccc'', tx_to = flashAddress, amountUSDC = 50000, logIndex = 1\<rparr>,
      \<lparr>txHash = ''0x3'', blockNumber = 5000, tx_from = flashAddress, tx_to = ''0xbbbb'', amountUSDC = 50000, logIndex = 2\<rparr>]"

definition unevenPair :: "transfer list" where
  "unevenPair =
     [\<lparr>txHash = ''0x1'', blockNumber = 5000, tx_from = ''0xbbbb'', tx_to = flashAddress, amountUSDC = 100000, logIndex = 0\<rparr>,
      \<lparr>txHash = ''0x2'', blockNumber = 5000, tx_from = flashAddress, tx_to = ''0xcccc'', amountUSDC = 50000, logIndex = 1\<rparr>]"

text \<open>
  Two amounts as the RPC client computes them, \<open>Number(BigInt(log.data)) / 1e6\<close>, from
  110 628 878 580 and 116 160 322 509 units of \<open>10\<^sup>-\<^sup>6\<close> USDC.
\<close>

definition roundingPair :: "transfer list" where
  "roundingPair =
     [\<lparr>txHash = ''0x1'', blockNumber = 5000, tx_from = ''0xbbbb'', tx_to = flashAddress, amountUSDC = jsDiv 110628878580 1000000, logIndex = 0\<rparr>,
      \<lparr>txHash = ''0x2'', blockNumber = 5000, tx_from = flashAddress, tx_to = ''0xcccc'', amountUSDC = jsDiv 116160322509 1000000, logIndex = 1\<rparr>]"

definition fiveDeposits :: "deposit list" where
  "fiveDeposits =
     [\<lparr>dep_txHash = ''0x0'', dep_blockNumber = 1000, sourceChain = ''ethereum''\<rparr>,
      \<lparr>dep_txHash = ''0x1'', dep_blockNumber = 1002, sourceChain = ''ethereum''\<rparr>,
      \<lparr>dep_txHash = ''0x2'', dep_blockNumber = 1004, sourceChain = ''ethereum''\<rparr>,
      \<lparr>dep_txHash = ''0x3'', dep_blockNumber = 1006, sourceChain = ''ethereum''\<rparr>,
      \<lparr>dep_txHash = ''0x4'', dep_blockNumber = 1008, sourceChain = ''ethereum''\<rparr>]"

definition velocityAddress :: string where
  "velocityAddress = ''0xaaaaaaaaaaaaaaaaaaaaaaaaaaaaaaaaaaaaaaaa''"

definition twentyFiveTransfers :: "transfer list" where
  "twentyFiveTransfers =
     [\<lparr>txHash = ''0x0'', blockNumber = 1000, tx_from = velocityAddress, tx_to = ''0x0000000000000000000000000000000000000000'', amountUSDC = 100, logIndex = 0\<rparr>,
      \<lparr>txHash = ''0x1'', blockNumber = 1001, tx_from = velocityAddress, tx_to = ''0x0000000000000000000000000000000000000001'', amountUSDC = 100, logIndex = 0\<rparr>,
      \<lparr>txHash = ''0x2'', blockNumber = 1002, tx_from = velocityAddress, tx_to = ''0x0000000000000000000000000000000000000002'', amountUSDC = 100, logIndex = 0\<rparr>,
      \<lparr>txHash = ''0x3'', blockNumber = 1003, tx_from = velocityAddress, tx_to = ''0x0000000000000000000000000000000000000003'', amountUSDC = 100, logIndex = 0\<rparr>,
      \<lparr>txHash = ''0x4'', blockNumber = 1004, tx_from = velocityAddress, tx_to = ''0x0000000000000000000000000000000000000004'', amountUSDC = 100, logIndex = 0\<rparr>,
      \<lparr>txHash = ''0x5'', blockNumber = 1005, tx_from = velocityAddress, tx_to = ''0x0000000000000000000000000000000000000005'', amountUSDC = 100, logIndex = 0\<rparr>,
      \<lparr>txHash = ''0x6'', blockNumber = 1006, tx_from = velocityAddress, tx_to = ''0x0000000000000000000000000000000000000006'', amountUSDC = 100, logIndex = 0\<rparr>,
      \<lparr>txHash = ''0x7'', blockNumber = 1007, tx_from = velocityAddress, tx_to = ''0x0000000000000000000000000000000000000007'', amountUSDC = 100, logIndex = 0\<rparr>,
      \<lparr>txHash = ''0x8'', blockNumber = 1008, tx_from = velocityAddress, tx_to = ''0x0000000000000000000000000000000000000008'', amountUSDC = 100, logIndex = 0\<rparr>,
      \<lparr>txHash = ''0x9'', blockNumber = 1009, tx_from = velocityAddress, tx_to = ''0x0000000000000000000000000000000000000009'', amountUSDC = 100, logIndex = 0\<rparr>,
      \<lparr>txHash = ''0x10'', blockNumber = 1010, tx_from = velocityAddress, tx_to = ''0x000000000000000000000000000000000000000a'', amountUSDC = 100, logIndex = 0\<rparr>,
      \<lparr>txHash = ''0x11'', blockNumber = 1011, tx_from = velocityAddress, tx_to = ''0x000000000000000000000000000000000000000b'', amountUSDC = 100, logIndex = 0\<rparr>,
      \<lparr>txHash = ''0x12'', blockNumber = 1012, tx_from = velocityAddress, tx_to = ''0x000000000000000000000000000000000000000c'', amountUSDC = 100, logIndex = 0\<rparr>,
      \<lparr>txHash = ''0x13'', blockNumber = 1013, tx_from = velocityAddress, tx_to = ''0x000000000000000000000000000000000000000d'', amountUSDC = 100, logIndex = 0\<rparr>,
      \<lparr>txHash = ''0x14'', blockNumber = 1014, tx_from = velocityAddress, tx_to = ''0x000000000000000000000000000000000000000e'', amountUSDC = 100, logIndex = 0\<rparr>,
      \<lparr>txHash = ''0x15'', blockNumber = 1015, tx_from = velocityAddress, tx_to = ''0x000000000000000000000000000000000000000f'', amountUSDC = 100, logIndex = 0\<rparr>,
      \<lparr>txHash = ''0x16'', blockNumber = 1016, tx_from = velocityAddress, tx_to = ''0x0000000000000000000000000000000000000010'', amountUSDC = 100, logIndex = 0\<rparr>,
      \<lparr>txHash = ''0x17'', blockNumber = 1017, tx_from = velocityAddress, tx_to = ''0x0000000000000000000000000000000000000011'', amountUSDC = 100, logIndex = 0\<rparr>,
      \<lparr>txHash = ''0x18'', blockNumber = 1018, tx_from = velocityAddress, tx_to = ''0x0000000000000000000000000000000000000012'', amountUSDC = 100, logIndex = 0\<rparr>,
      \<lparr>txHash = ''0x19'', blockNumber = 1019, tx_from = velocityAddress, tx_to = ''0x0000000000000000000000000000000000000013'', amountUSDC = 100, logIndex = 0\<rparr>,
      \<lparr>txHash = ''0x20'', blockNumber = 1020, tx_from = velocityAddress, tx_to = ''0x0000000000000000000000000000000000000014'', amountUSDC = 100, logIndex = 0\<rparr>,
      \<lparr>txHash = ''0x21'', blockNumber = 1021, tx_from = velocityAddress, tx_to = ''0x0000000000000000000000000000000000000015'', amountUSDC = 100, logIndex = 0\<rparr>,
      \<lparr>txHash = ''0x22'', blockNumber = 1022, tx_from = velocityAddress, tx_to = ''0x0000000000000000000000000000000000000016'', amountUSDC = 100, logIndex = 0\<rparr>,
      \<lparr>txHash = ''0x23'', blockNumber = 1023, tx_from = velocityAddress, tx_to = ''0x0000000000000000000000000000000000000017'', amountUSDC = 100, logIndex = 0\<rparr>,
      \<lparr>txHash = ''0x24'', blockNumber = 1024, tx_from = velocityAddress, tx_to = ''0x0000000000000000000000000000000000000018'', amountUSDC = 100, logIndex = 0\<rparr>]"

section \<open>Properties\<close>

lemma lower_upper_char: "lower_char (upper_char c) = lower_char c"
  unfolding lower_char_def upper_char_def Let_def
  by (auto simp: of_char_eq_iff[symmetric] simp del: of_char_eq_iff)

lemma lower_lower_char: "lower_char (lower_char c) = lower_char c"
  unfolding lower_char_def Let_def by auto

lemma toLowerCase_toUpperCase: "toLowerCase (toUpperCase a) = toLowerCase a"
  by (simp add: toLowerCase_def toUpperCase_def lower_upper_char)

lemma toLowerCase_idem: "toLowerCase (toLowerCase a) = toLowerCase a"
  by (simp add: toLowerCase_def lower_lower_char)

text \<open>
  Claim C9.  The registry lookup is case-insensitive: whatever the capitalisation of the
  keys of the registry file, looking up the lowercase form of an address and looking up
  its uppercase form give the same result (the same entry, or none in both cases).
\<close>

theorem C9_lookup_case_insensitive:
  "checkScamDatabase (newAddressChecker addresses) (toLowerCase a) =
   checkScamDatabase (newAddressChecker addresses) (toUpperCase a)"
  by (simp add: checkScamDatabase_def toLowerCase_toUpperCase toLowerCase_idem)

subsection \<open>Profiles under a failing data source\<close>

lemma buildProfile_failure:
  assumes "isl (rpc_isContract w chain address) \<or> isl (rpc_getTransactionCount w chain address) \<or>
           isl (rpc_getUSDCBalance w chain address) \<or> isl (rpc_getBalance w chain address)"
  shows "\<exists>message. p_flags (buildProfile w address chain) = [''RPC_ERROR''] \<and>
           p_riskFactors (buildProfile w address chain) =
             [\<lparr>factor = FailedToQuery message, impact = 10\<rparr>]"
  using assms
  by (auto simp: buildProfile_def rpcErrorProfile_def Let_def split: sum.splits)

text \<open>
  Claim C8.  When the profile is built (the cache has no live entry for the key) and any
  of the four queries fails, \<open>analyzeAddressProfile\<close> still returns a profile; its flags
  are exactly \<open>RPC_ERROR\<close> and its risk factors are exactly the one factor of impact 10
  that reports the failure.  So no profile comes back with fields filled in and no error
  marker, and none of the derived flags is computed from half of the data.
\<close>

theorem C8_profile_degrades_on_failure:
  assumes "fst (getCache w st (cacheKey chain address)) = None"
    and "isl (rpc_isContract w chain address) \<or> isl (rpc_getTransactionCount w chain address) \<or>
         isl (rpc_getUSDCBalance w chain address) \<or> isl (rpc_getBalance w chain address)"
  shows "\<exists>p st' message. analyzeAddressProfile w st address chain = (p, st') \<and>
           p_flags p = [''RPC_ERROR''] \<and>
           p_riskFactors p = [\<lparr>factor = FailedToQuery message, impact = 10\<rparr>]"
proof -
  obtain st1 where g: "getCache w st (cacheKey chain address) = (None, st1)"
    using assms(1) by (cases "getCache w st (cacheKey chain address)") auto
  from buildProfile_failure[OF assms(2)] obtain message where
    "p_flags (buildProfile w address chain) = [''RPC_ERROR'']"
    "p_riskFactors (buildProfile w address chain) =
       [\<lparr>factor = FailedToQuery message, impact = 10\<rparr>]"
    by blast
  then show ?thesis
    by (simp add: analyzeAddressProfile_def g Let_def)
qed

text \<open>
  The witness: the USDC balance query times out after the contract check and the
  transaction count succeeded.  The two fields already assigned stay in the profile, next
  to the error flag and its factor.
\<close>

theorem C8_profile_degrades_on_failure_witness:
  "\<exists>p st'. analyzeAddressProfile failingWorld (newAddressChecker []) cleanAddress ''base'' = (p, st') \<and>
     p_flags p = [''RPC_ERROR''] \<and> isContract p \<and> txCount p = 42 \<and>
     p_riskFactors p = [\<lparr>factor = FailedToQuery ''RPC timeout for base'', impact = 10\<rparr>]"
proof -
  have a: "fst (getCache failingWorld (newAddressChecker []) (cacheKey ''base'' cleanAddress)) = None"
    by (simp add: getCache_def newAddressChecker_def)
  have b: "isl (rpc_getUSDCBalance failingWorld ''base'' cleanAddress)"
    by (simp add: failingWorld_def)
  from C8_profile_degrades_on_failure[of failingWorld "newAddressChecker []" "''base''" cleanAddress, OF a] b
  obtain p st' message where h:
    "analyzeAddressProfile failingWorld (newAddressChecker []) cleanAddress ''base'' = (p, st')"
    "p_flags p = [''RPC_ERROR'']"
    "p_riskFactors p = [\<lparr>factor = FailedToQuery message, impact = 10\<rparr>]"
    by blast
  have c: "buildProfile failingWorld cleanAddress ''base'' =
     rpcErrorProfile ''RPC timeout for base''
       \<lparr>p_address = toLowerCase cleanAddress, p_chain = ''base'', isContract = True,
        txCount = 42, usdcBalance = 0, ethBalance = 0,
        usdcBalanceFormatted = None, ethBalanceFormatted = None,
        p_flags = [], p_riskFactors = []\<rparr>"
    by (simp add: buildProfile_def failingWorld_def)
  have "p = buildProfile failingWorld cleanAddress ''base''"
    using h(1) by (simp add: analyzeAddressProfile_def getCache_def newAddressChecker_def Let_def)
  with h c show ?thesis by (simp add: rpcErrorProfile_def)
qed

subsection \<open>Scores, levels and the cache invariant\<close>

lemma reduceSum_sum_list: "reduceSum f xs = sum_list (map f xs)"
proof -
  have "fold (\<lambda>x sum. sum + f x) xs a = a + sum_list (map f xs)" for a
    by (induction xs arbitrary: a) (simp_all add: add.assoc)
  then show ?thesis by (simp add: reduceSum_def)
qed

lemma fold_impact_sum: "fold (\<lambda>f sum. sum + impact f) xs (a::int) = a + sum_list (map impact xs)"
  by (induction xs arbitrary: a) simp_all

lemma sum_list_nonneg_all: "list_all (\<lambda>x. (0::int) \<le> f x) xs \<Longrightarrow> 0 \<le> sum_list (map f xs)"
  by (induction xs) auto

lemma scoreToLevel_band:
  "0 \<le> s \<Longrightarrow> s \<le> 100 \<Longrightarrow> levelBand s = [scoreToLevel s]"
  by (simp add: levelBand_def RISK_LEVELS_def scoreToLevel_def)

lemma reputationLevel_band:
  "0 \<le> s \<Longrightarrow> s \<le> 100 \<Longrightarrow> levelBand s = [reputationLevel s]"
  by (simp add: levelBand_def RISK_LEVELS_def reputationLevel_def)

lemma severityWeight_range: "0 \<le> severityWeight sev \<and> severityWeight sev \<le> 100"
  by (simp add: severityWeight_def SEVERITY_WEIGHTS_def)

lemma severityWeight_pos: "0 < severityWeight sev"
  by (simp add: severityWeight_def SEVERITY_WEIGHTS_def)

lemma checkScamDatabase_riskScore:
  "checkScamDatabase st a = Some m \<Longrightarrow> riskScore m = severityWeight (severity m)"
  by (auto simp: checkScamDatabase_def Let_def split: option.splits)

lemma flagAnalysis_ok: "profile_ok p \<Longrightarrow> profile_ok (flagAnalysis u e p)"
  by (simp add: profile_ok_def flagAnalysis_def Let_def)

lemma rpcErrorProfile_ok: "profile_ok p \<Longrightarrow> profile_ok (rpcErrorProfile m p)"
  by (simp add: profile_ok_def rpcErrorProfile_def)

lemma buildProfile_ok: "profile_ok (buildProfile w a c)"
  unfolding buildProfile_def Let_def
  by (auto split: sum.splits intro!: flagAnalysis_ok rpcErrorProfile_ok) (simp_all add: profile_ok_def)

lemma getCache_ok:
  assumes "cache_ok st" "getCache w st key = (r, st1)"
  shows "cache_ok st1 \<and> scamDb st1 = scamDb st \<and> (\<forall>p. r = Some p \<longrightarrow> profile_ok p)"
  using assms
  by (auto simp: getCache_def cache_ok_def Let_def split: option.splits if_splits)

lemma setCache_ok: "cache_ok st \<Longrightarrow> profile_ok p \<Longrightarrow> cache_ok (setCache w st key p)"
  by (auto simp: setCache_def cache_ok_def)

lemma setCache_scamDb: "scamDb (setCache w st key p) = scamDb st"
  by (simp add: setCache_def)

lemma analyzeAddressProfile_ok:
  assumes "cache_ok st" "analyzeAddressProfile w st a c = (p, st1)"
  shows "profile_ok p \<and> cache_ok st1 \<and> scamDb st1 = scamDb st"
proof (cases "getCache w st (cacheKey c a)")
  case (Pair r st0)
  from getCache_ok[OF assms(1) Pair] have g: "cache_ok st0" "scamDb st0 = scamDb st"
    "\<And>q. r = Some q \<Longrightarrow> profile_ok q" by auto
  show ?thesis
  proof (cases r)
    case None
    with Pair assms(2) have "p = buildProfile w a c" "st1 = setCache w st0 (cacheKey c a) p"
      by (auto simp: analyzeAddressProfile_def Let_def)
    then show ?thesis using g by (simp add: buildProfile_ok setCache_ok setCache_scamDb)
  next
    case (Some q)
    with Pair assms(2) have "p = q" "st1 = st0"
      by (auto simp: analyzeAddressProfile_def)
    then show ?thesis using g Some by simp
  qed
qed

lemma reputationChain_ok:
  assumes "cache_ok st" "factors_ok (rep_riskFactors rep)"
    and "reputationChain w a c (rep, st) = (rep', st')"
  shows "cache_ok st' \<and> factors_ok (rep_riskFactors rep') \<and> scamDb st' = scamDb st \<and>
         rep_overallScore rep' = rep_overallScore rep \<and> rep_scamMatch rep' = rep_scamMatch rep"
proof (cases "analyzeAddressProfile w st a c")
  case (Pair p st1)
  from analyzeAddressProfile_ok[OF assms(1) Pair]
  have "profile_ok p" "cache_ok st1" "scamDb st1 = scamDb st" by auto
  with assms(2,3) Pair show ?thesis
    by (auto simp: reputationChain_def Let_def factors_ok_def profile_ok_def split: if_splits)
qed

lemma fold_reputationChain_ok:
  assumes "cache_ok st" "factors_ok (rep_riskFactors rep)"
    and "fold (reputationChain w a) cs (rep, st) = (rep', st')"
  shows "cache_ok st' \<and> factors_ok (rep_riskFactors rep') \<and> scamDb st' = scamDb st \<and>
         rep_overallScore rep' = rep_overallScore rep \<and> rep_scamMatch rep' = rep_scamMatch rep"
  using assms
proof (induction cs arbitrary: rep st)
  case Nil
  then show ?case by simp
next
  case (Cons c cs)
  obtain r1 s1 where x: "reputationChain w a c (rep, st) = (r1, s1)"
    by (cases "reputationChain w a c (rep, st)")
  from reputationChain_ok[OF Cons.prems(1,2) x] Cons.IH[of s1 r1] Cons.prems(3) x
  show ?case by simp
qed

lemma checkerGetReputation_score:
  assumes "cache_ok st" "checkerGetReputation w st a cs = (rep, st')"
  shows "cache_ok st' \<and> scamDb st' = scamDb st \<and>
         0 \<le> rep_overallScore rep \<and> rep_overallScore rep \<le> 100 \<and>
         rep_level rep = reputationLevel (rep_overallScore rep) \<and>
         rep_scamMatch rep = checkScamDatabase st a \<and>
         (case checkScamDatabase st a of
            None \<Rightarrow> rep_overallScore rep = min 100 (sum_list (map impact (rep_riskFactors rep)))
          | Some m \<Rightarrow> rep_overallScore rep = riskScore m)"
proof -
  define rep0 where "rep0 = \<lparr>rep_address = toLowerCase a, rep_overallScore = 0,
                  rep_level = ''CLEAN'', rep_chains = Map.empty, rep_scamMatch = None,
                  rep_interactions = [], rep_flags = [], rep_riskFactors = []\<rparr>"
  define rep1 where "rep1 = (case checkScamDatabase st a of
                    None \<Rightarrow> rep0
                  | Some m \<Rightarrow>
                      rep0\<lparr>rep_scamMatch := Some m,
                           rep_overallScore := riskScore m,
                           rep_flags := set_add (''KNOWN_'' @ toUpperCase (category m)) (rep_flags rep0),
                           rep_riskFactors := rep_riskFactors rep0 @
                             [\<lparr>factor = KnownScam (category m) (label m), impact = riskScore m\<rparr>]\<rparr>)"
  obtain rep2 st2 where f: "fold (reputationChain w a) cs (rep1, st) = (rep2, st2)"
    by (cases "fold (reputationChain w a) cs (rep1, st)")
  have ok1: "factors_ok (rep_riskFactors rep1)"
    using severityWeight_range
    by (auto simp: rep1_def rep0_def factors_ok_def checkScamDatabase_riskScore split: option.splits)
  from fold_reputationChain_ok[OF assms(1) ok1 f]
  have inv: "cache_ok st2" "factors_ok (rep_riskFactors rep2)" "scamDb st2 = scamDb st"
    "rep_overallScore rep2 = rep_overallScore rep1" "rep_scamMatch rep2 = rep_scamMatch rep1"
    by auto
  have nn: "0 \<le> sum_list (map impact (rep_riskFactors rep2))"
    using inv(2) by (simp add: factors_ok_def sum_list_nonneg_all)
  have sm: "rep_scamMatch rep1 = checkScamDatabase st a"
    by (simp add: rep1_def rep0_def split: option.splits)
  from assms(2) f[unfolded rep1_def rep0_def] have r: "st' = st2" "rep = (let rep3 = (if checkScamDatabase st a = None
                        then rep2\<lparr>rep_overallScore :=
                               min 100 (fold (\<lambda>f sum. sum + impact f) (rep_riskFactors rep2) 0)\<rparr>
                        else rep2)
            in rep3\<lparr>rep_level := reputationLevel (rep_overallScore rep3)\<rparr>)"
    by (auto simp: checkerGetReputation_def Let_def)
  show ?thesis
  proof (cases "checkScamDatabase st a")
    case None
    then show ?thesis using r inv nn sm by (simp add: Let_def fold_impact_sum)
  next
    case (Some m)
    then have "rep_overallScore rep1 = riskScore m" by (simp add: rep1_def)
    then show ?thesis using r inv sm Some severityWeight_range[of "severity m"]
      by (simp add: Let_def checkScamDatabase_riskScore[OF Some])
  qed
qed

lemma detectWashTrading_impact: "detectWashTrading a ts = Some f \<Longrightarrow> riskImpact f = 35"
  by (auto simp: detectWashTrading_def Let_def split: if_splits)

lemma detectFlashLoanPatterns_impact: "detectFlashLoanPatterns a c ts = Some f \<Longrightarrow> riskImpact f = 40"
  by (auto simp: detectFlashLoanPatterns_def Let_def split: if_splits)

lemma detectHighVelocity_impact: "detectHighVelocity a ts = Some f \<Longrightarrow> riskImpact f = 20"
  by (auto simp: detectHighVelocity_def Let_def split: if_splits)

lemma detectCircularFlows_impact: "detectCircularFlows a ts = Some f \<Longrightarrow> 0 \<le> riskImpact f"
  by (auto simp: detectCircularFlows_def Let_def split: if_splits)

lemma detectLargeTransfers_impact: "detectLargeTransfers a ts = Some f \<Longrightarrow> 0 \<le> riskImpact f"
  by (auto simp: detectLargeTransfers_def Let_def split: if_splits)

lemma pushFound_ok:
  "findings_ok xs \<Longrightarrow> (\<And>f. r = Some f \<Longrightarrow> 0 \<le> riskImpact f) \<Longrightarrow> findings_ok (pushFound r xs)"
  by (cases r) (simp_all add: pushFound_def findings_ok_def)

lemma analyzePatterns_ok: "findings_ok (pr_patterns (analyzePatterns a c ts))"
  unfolding analyzePatterns_def Let_def
  apply simp
  apply (intro pushFound_ok)
       apply (simp add: findings_ok_def)
      apply (simp add: detectWashTrading_impact)
     apply (simp add: detectFlashLoanPatterns_impact)
    apply (simp add: detectHighVelocity_impact)
   apply (simp add: detectCircularFlows_impact)
  apply (simp add: detectLargeTransfers_impact)
  done

lemma chainPatterns_ok: "findings_ok (chainPatterns w a c)"
  using analyzePatterns_ok by (simp add: chainPatterns_def Let_def findings_ok_def)

lemma concat_chainPatterns_ok: "findings_ok (concat (map (chainPatterns w a) cs))"
  using chainPatterns_ok by (induction cs) (auto simp: findings_ok_def)

lemma patternRisk_nonneg: "0 \<le> reduceSum riskImpact (concat (map (chainPatterns w a) cs))"
  using concat_chainPatterns_ok[of w a cs]
  by (simp add: reduceSum_sum_list findings_ok_def sum_list_nonneg_all)

lemma detectRapidBridging_impact: "detectRapidBridging ds = Some f \<Longrightarrow> 0 \<le> riskImpact f"
  by (auto simp: detectRapidBridging_def Let_def split: if_splits)

lemma detectChainHopping_impact: "detectChainHopping ds = Some f \<Longrightarrow> riskImpact f = 20"
  by (auto simp: detectChainHopping_def Let_def split: if_splits)

lemma factors_ok_Nil: "factors_ok []"
  by (simp add: factors_ok_def)

lemma pushPattern_ok:
  "factors_ok (cc_riskFactors (pushPattern n r res)) =
   (factors_ok (cc_riskFactors res) \<and> (case r of None \<Rightarrow> True | Some f \<Rightarrow> 0 \<le> riskImpact f))"
  by (cases r) (simp_all add: pushPattern_def factors_ok_def)

lemma rapid_case: "(case detectRapidBridging ds of None \<Rightarrow> True | Some f \<Rightarrow> 0 \<le> riskImpact f)"
  by (simp add: detectRapidBridging_impact split: option.splits)

lemma hopping_case: "(case detectChainHopping ds of None \<Rightarrow> True | Some f \<Rightarrow> 0 \<le> riskImpact f)"
  by (simp add: detectChainHopping_impact split: option.splits)

lemma analyzeCrossChainActivity_ok: "factors_ok (cc_riskFactors (analyzeCrossChainActivity w a cs))"
  unfolding analyzeCrossChainActivity_def Let_def
  by (simp add: pushPattern_ok rapid_case hopping_case detectRoundTrip_def factors_ok_Nil
      del: length_0_conv concat_eq_Nil_conv)

lemma cctpRisk_nonneg: "0 \<le> reduceSum impact (cc_riskFactors (analyzeCrossChainActivity w a cs))"
  using analyzeCrossChainActivity_ok[of w a cs]
  by (simp add: reduceSum_sum_list factors_ok_def sum_list_nonneg_all)

lemma scanAddress_result:
  assumes "validateAddress a = Inr ()"
  shows "\<exists>res st'. scanAddress w st a opts = Inr (res, st') \<and>
           (sr_reputation res, st') = checkerGetReputation w st a (resolveChains (so_chains opts)) \<and>
           overallScore res =
             scanScoreOf (scanDepth res) (rep_overallScore (sr_reputation res))
               (sr_patterns res) (cctpAnalysis res) \<and>
           level res = scoreToLevel (overallScore res) \<and>
           scanDepth res = depthOption (so_depth opts) \<and>
           sr_patterns res =
             (if scanDepth res \<noteq> ''quick''
              then concat (map (chainPatterns w a) (resolveChains (so_chains opts))) else []) \<and>
           cctpAnalysis res =
             (if scanDepth res = ''deep''
              then Some (analyzeCrossChainActivity w a (resolveChains (so_chains opts))) else None)"
proof -
  obtain rep st1 where r: "checkerGetReputation w st a (resolveChains (so_chains opts)) = (rep, st1)"
    by (cases "checkerGetReputation w st a (resolveChains (so_chains opts))")
  show ?thesis
    using assms r
    by (simp add: scanAddress_def Let_def scanScoreOf_def reduceSum_sum_list)
qed

lemma scanScoreOf_lower:
  assumes "findings_ok found" "\<And>c. cc = Some c \<Longrightarrow> factors_ok (cc_riskFactors c)" "s \<le> 100"
  shows "s \<le> scanScoreOf depth s found cc \<and> (0 \<le> s \<longrightarrow> scanScoreOf depth s found cc \<le> 100)"
proof -
  have a: "0 \<le> sum_list (map riskImpact found)"
    using assms(1) by (simp add: findings_ok_def sum_list_nonneg_all)
  show ?thesis
  proof (cases cc)
    case None
    then show ?thesis using a assms(3) by (simp add: scanScoreOf_def Let_def)
  next
    case (Some c)
    then have "0 \<le> sum_list (map impact (cc_riskFactors c))"
      using assms(2) by (simp add: factors_ok_def sum_list_nonneg_all)
    then show ?thesis using a assms(3) Some by (auto simp add: scanScoreOf_def Let_def min_def)
  qed
qed

lemma scan_findings_ok:
  "findings_ok (if d \<noteq> ''quick'' then concat (map (chainPatterns w a) cs) else [])"
  by (simp add: concat_chainPatterns_ok) (simp add: findings_ok_def)




lemma fold_clamp_range:
  "0 \<le> s \<Longrightarrow> s \<le> 100 \<Longrightarrow> factors_ok rfs \<Longrightarrow>
   0 \<le> fold (\<lambda>rf score. min 100 (score + impact rf)) rfs (s::int) \<and>
   fold (\<lambda>rf score. min 100 (score + impact rf)) rfs s \<le> 100"
  by (induction rfs arbitrary: s) (simp_all add: factors_ok_def)

lemma checkScamStep_ok: "score_ok v \<Longrightarrow> score_ok (checkScamStep st a v)"
  using severityWeight_range
  by (auto simp: checkScamStep_def score_ok_def checkScamDatabase_riskScore split: option.splits)

lemma checkProfileStep_ok: "score_ok v \<Longrightarrow> factors_ok (p_riskFactors prof) \<Longrightarrow> score_ok (checkProfileStep prof v)"
  using fold_clamp_range[of "v_overallScore v" "p_riskFactors prof"]
  by (simp add: checkProfileStep_def score_ok_def)

lemma checkBurnStep_ok: "score_ok v \<Longrightarrow> score_ok (checkBurnStep a v)"
  by (simp add: checkBurnStep_def score_ok_def)

lemma checkLargeStep_ok: "score_ok v \<Longrightarrow> score_ok (checkLargeStep w st a c amt v)"
  by (simp add: checkLargeStep_def score_ok_def Let_def)

lemma finalSafety_ok:
  "score_ok v \<Longrightarrow> score_ok (finalSafety v) \<and>
     v_level (finalSafety v) = scoreToLevel (v_overallScore (finalSafety v))"
  by (simp add: finalSafety_def score_ok_def Let_def)

lemma recommend_fields:
  "v_overallScore (recommend v) = v_overallScore v" "v_level (recommend v) = v_level v"
  "safe (recommend v) = safe v" "v_flags (recommend v) = v_flags v"
  by (simp_all add: recommend_def)

lemma validateTransfer_range:
  assumes "validateAddress a = Inr ()" "cache_ok st"
  shows "\<exists>v st'. validateTransfer w st a opts = Inr (v, st') \<and>
           0 \<le> v_overallScore v \<and> v_overallScore v \<le> 100 \<and>
           v_level v = scoreToLevel (v_overallScore v) \<and> cache_ok st'"
proof -
  define chain where "chain = (case to_chain opts of None \<Rightarrow> ''base'' | Some c \<Rightarrow> if c = [] then ''base'' else c)"
  obtain prof st1 where p: "analyzeAddressProfile w st a chain = (prof, st1)"
    by (cases "analyzeAddressProfile w st a chain")
  from analyzeAddressProfile_ok[OF assms(2) p] have ok: "factors_ok (p_riskFactors prof)" "cache_ok st1"
    by (simp_all add: profile_ok_def factors_ok_def)
  have "score_ok v0" if "v_overallScore v0 = 0" for v0
    using that by (simp add: score_ok_def)
  then show ?thesis
    using assms(1) p ok
    by (simp add: validateTransfer_def Let_def chain_def[symmetric] recommend_fields
        finalSafety_ok[unfolded score_ok_def] checkLargeStep_ok[unfolded score_ok_def]
        checkBurnStep_ok checkProfileStep_ok checkScamStep_ok score_ok_def[symmetric])
qed

lemma checkLargeStep_burn:
  "v_overallScore v = 100 \<Longrightarrow> \<not> safe v \<Longrightarrow> x \<in> set (v_flags v) \<Longrightarrow>
   v_overallScore (checkLargeStep w st a c amt v) = 100 \<and> \<not> safe (checkLargeStep w st a c amt v) \<and>
   x \<in> set (v_flags (checkLargeStep w st a c amt v))"
  by (simp add: checkLargeStep_def Let_def)

lemma finalSafety_burn:
  "v_overallScore v = 100 \<Longrightarrow> \<not> safe v \<Longrightarrow> x \<in> set (v_flags v) \<Longrightarrow>
   v_overallScore (finalSafety v) = 100 \<and> \<not> safe (finalSafety v) \<and>
   x \<in> set (v_flags (finalSafety v))"
  by (simp add: finalSafety_def Let_def)

lemma checkBurnStep_burn:
  "toLowerCase a = ZERO_ADDRESS \<or> toLowerCase a = DEAD_ADDRESS \<Longrightarrow>
   v_overallScore (checkBurnStep a v) = 100 \<and> \<not> safe (checkBurnStep a v) \<and>
   ''BURN_ADDRESS'' \<in> set (v_flags (checkBurnStep a v))"
  by (auto simp add: checkBurnStep_def)

lemma validateTransfer_burn:
  assumes "validateAddress a = Inr ()"
    and "toLowerCase a = ZERO_ADDRESS \<or> toLowerCase a = DEAD_ADDRESS"
  shows "\<exists>v st'. validateTransfer w st a opts = Inr (v, st') \<and>
           \<not> safe v \<and> v_overallScore v = 100 \<and> ''BURN_ADDRESS'' \<in> set (v_flags v)"
proof -
  define chain where "chain = (case to_chain opts of None \<Rightarrow> ''base'' | Some c \<Rightarrow> if c = [] then ''base'' else c)"
  obtain prof st1 where p: "analyzeAddressProfile w st a chain = (prof, st1)"
    by (cases "analyzeAddressProfile w st a chain")
  note b = checkBurnStep_burn[OF assms(2)]
  note l = checkLargeStep_burn[OF b[THEN conjunct1] b[THEN conjunct2, THEN conjunct1] b[THEN conjunct2, THEN conjunct2]]
  note f = finalSafety_burn[OF l[THEN conjunct1] l[THEN conjunct2, THEN conjunct1] l[THEN conjunct2, THEN conjunct2]]
  show ?thesis
    using assms(1) p f
    by (simp add: validateTransfer_def Let_def chain_def[symmetric] recommend_fields)
qed

lemma cache_ok_new: "cache_ok (newAddressChecker addresses)"
  by (simp add: cache_ok_def newAddressChecker_def)

lemma cache_ok_reload: "cache_ok (reload addresses st)"
  by (simp add: cache_ok_def reload_def)

subsection \<open>Sample evaluations\<close>

lemma valid_ronin: "validateAddress roninExploiter = Inr ()"
  by code_simp

lemma valid_dead: "validateAddress deadMixedCase = Inr ()"
  by code_simp

lemma lower_dead: "toLowerCase deadMixedCase = DEAD_ADDRESS"
  by code_simp










subsection \<open>The claims about the aggregate score\<close>

text \<open>
  Claim C1.  For every valid address, every data source and clock, and every state whose
  cache holds profiles the analyzer produced, a full scan, a reputation query and a
  transfer validation each return a result whose score lies between 0 and 100 and whose
  level is the one band of \<open>RISK_LEVELS\<close> (CLEAN 0-9, LOW 10-39, MEDIUM 40-69, HIGH
  70-89, CRITICAL 90-100) that contains the score.
\<close>

theorem C1_score_in_range_level_is_band:
  assumes "validateAddress address = Inr ()" and "cache_ok st"
  shows "(\<exists>res st'. scanAddress w st address options = Inr (res, st') \<and>
            0 \<le> overallScore res \<and> overallScore res \<le> 100 \<and>
            levelBand (overallScore res) = [level res]) \<and>
         (\<exists>rep st'. getReputation w st address chainsArg = Inr (rep, st') \<and>
            0 \<le> rep_overallScore rep \<and> rep_overallScore rep \<le> 100 \<and>
            levelBand (rep_overallScore rep) = [rep_level rep]) \<and>
         (\<exists>v st'. validateTransfer w st address transferOptions = Inr (v, st') \<and>
            0 \<le> v_overallScore v \<and> v_overallScore v \<le> 100 \<and>
            levelBand (v_overallScore v) = [v_level v])"
proof (intro conjI)
  from scanAddress_result[OF assms(1), of w st options] obtain res st' where
    r: "scanAddress w st address options = Inr (res, st')"
      "(sr_reputation res, st') = checkerGetReputation w st address (resolveChains (so_chains options))"
      "overallScore res = scanScoreOf (scanDepth res) (rep_overallScore (sr_reputation res))
               (sr_patterns res) (cctpAnalysis res)"
      "level res = scoreToLevel (overallScore res)"
      "sr_patterns res = (if scanDepth res \<noteq> ''quick''
              then concat (map (chainPatterns w address) (resolveChains (so_chains options))) else [])"
      "cctpAnalysis res = (if scanDepth res = ''deep''
              then Some (analyzeCrossChainActivity w address (resolveChains (so_chains options))) else None)"
    by blast
  from checkerGetReputation_score[OF assms(2) r(2)[symmetric]]
  have rs: "0 \<le> rep_overallScore (sr_reputation res)" "rep_overallScore (sr_reputation res) \<le> 100"
    by simp_all
  have f: "findings_ok (sr_patterns res)"
    unfolding r(5) by (rule scan_findings_ok)
  have c: "factors_ok (cc_riskFactors c)" if "cctpAnalysis res = Some c" for c
    using that analyzeCrossChainActivity_ok unfolding r(6) by (auto split: if_splits)
  from scanScoreOf_lower[OF f c rs(2), of "cctpAnalysis res" "scanDepth res"] rs(1)
  have "0 \<le> overallScore res" "overallScore res \<le> 100"
    unfolding r(3) by auto
  then show "\<exists>res st'. scanAddress w st address options = Inr (res, st') \<and>
            0 \<le> overallScore res \<and> overallScore res \<le> 100 \<and>
            levelBand (overallScore res) = [level res]"
    using r(1,4) by (simp add: scoreToLevel_band)
next
  obtain rep st' where g: "checkerGetReputation w st address (resolveChains chainsArg) = (rep, st')"
    by (cases "checkerGetReputation w st address (resolveChains chainsArg)")
  from checkerGetReputation_score[OF assms(2) g]
  show "\<exists>rep st'. getReputation w st address chainsArg = Inr (rep, st') \<and>
            0 \<le> rep_overallScore rep \<and> rep_overallScore rep \<le> 100 \<and>
            levelBand (rep_overallScore rep) = [rep_level rep]"
    using assms(1) g by (simp add: getReputation_def reputationLevel_band)
next
  from validateTransfer_range[OF assms, of w transferOptions]
  show "\<exists>v st'. validateTransfer w st address transferOptions = Inr (v, st') \<and>
            0 \<le> v_overallScore v \<and> v_overallScore v \<le> 100 \<and>
            levelBand (v_overallScore v) = [v_level v]"
    by (auto simp: scoreToLevel_band)
qed

text \<open>
  The witness: the Ronin exploiter address of the test suite, a fresh checker, and a data
  source that reports one transfer of 100 000 USDC.
\<close>

theorem C1_score_in_range_level_is_band_witness:
  "(\<exists>res st'. scanAddress largeTransferWorld (newAddressChecker sampleRegistry) roninExploiter
        standardEthereum = Inr (res, st') \<and>
      0 \<le> overallScore res \<and> overallScore res \<le> 100 \<and>
      levelBand (overallScore res) = [level res]) \<and>
   (\<exists>rep st'. getReputation largeTransferWorld (newAddressChecker sampleRegistry) roninExploiter
        None = Inr (rep, st') \<and>
      0 \<le> rep_overallScore rep \<and> rep_overallScore rep \<le> 100 \<and>
      levelBand (rep_overallScore rep) = [rep_level rep]) \<and>
   (\<exists>v st'. validateTransfer largeTransferWorld (newAddressChecker sampleRegistry) roninExploiter
        largeOnBase = Inr (v, st') \<and>
      0 \<le> v_overallScore v \<and> v_overallScore v \<le> 100 \<and>
      levelBand (v_overallScore v) = [v_level v])"
  by (rule C1_score_in_range_level_is_band[OF valid_ronin cache_ok_new])




text \<open>
  Claim C3.  For a valid recipient whose lowercase form is the zero address or the dead
  address, whatever the amount, the chain, the registry, the cache and the answers or
  failures of the data source, \<open>validateTransfer\<close> returns a result with
  \<open>safe = false\<close>, the score 100 and the flag \<open>BURN_ADDRESS\<close>.  (A recipient written
  with the prefix \<open>0X\<close> is not a valid address: validation rejects it before any check.)
\<close>

theorem C3_burn_address_is_unsafe:
  assumes "validateAddress recipient = Inr ()"
    and "toLowerCase recipient = ZERO_ADDRESS \<or> toLowerCase recipient = DEAD_ADDRESS"
  shows "\<exists>v st'. validateTransfer w st recipient options = Inr (v, st') \<and>
           safe v = False \<and> v_overallScore v = 100 \<and> ''BURN_ADDRESS'' \<in> set (v_flags v)"
  using validateTransfer_burn[OF assms, of w st options] by simp

text \<open>
  The witness: the dead address in mixed case, a transfer of 60 000 USDC on base, and a
  data source whose balance query fails during the profile analysis.
\<close>

theorem C3_burn_address_is_unsafe_witness:
  "\<exists>v st'. validateTransfer failingWorld (newAddressChecker sampleRegistry) deadMixedCase
       largeOnBase = Inr (v, st') \<and>
     safe v = False \<and> v_overallScore v = 100 \<and> ''BURN_ADDRESS'' \<in> set (v_flags v)"
  by (rule C3_burn_address_is_unsafe[OF valid_dead disjI2[OF lower_dead]])

subsection \<open>Wash trading\<close>

lemma washGroup_keys:
  "fst ` set (washGroup addr tx g) = insert (counterpartyOf addr tx) (fst ` set g)"
  by (auto simp: washGroup_def counterpartyOf_def Let_def AList.dom_update)

lemma washGroup_distinct: "distinct (map fst g) \<Longrightarrow> distinct (map fst (washGroup addr tx g))"
  by (simp add: washGroup_def Let_def AList.distinct_update)

lemma washGroup_flows:
  "flowsOf (washGroup addr tx g) cp =
     \<lparr>sent = sent (flowsOf g cp) @ outgoing addr [tx] cp,
      received = received (flowsOf g cp) @ incoming addr [tx] cp\<rparr>"
  by (auto simp: washGroup_def flowsOf_def Let_def AList.update_conv' outgoing_def incoming_def
      split: option.splits)

lemma fold_washGroup:
  "fst ` set (fold (washGroup addr) ts g) = counterpartyOf addr ` set ts \<union> fst ` set g \<and>
   (distinct (map fst g) \<longrightarrow> distinct (map fst (fold (washGroup addr) ts g))) \<and>
   flowsOf (fold (washGroup addr) ts g) cp =
     \<lparr>sent = sent (flowsOf g cp) @ outgoing addr ts cp,
      received = received (flowsOf g cp) @ incoming addr ts cp\<rparr>"
proof (induction ts arbitrary: g)
  case Nil
  then show ?case by (simp add: outgoing_def incoming_def)
next
  case (Cons tx ts)
  show ?case
    using Cons.IH[of "washGroup addr tx g"]
    by (auto simp: washGroup_keys washGroup_distinct washGroup_flows outgoing_def incoming_def)
qed

lemma amountsMatch_iff: "amountsMatch s r = withinOnePercent (s, r)"
  by (simp add: amountsMatch_def withinOnePercent_def WASH_TRADE_AMOUNT_TOLERANCE_def Let_def)

lemma inner_matches:
  "fold (\<lambda>r matches. if amountsMatch s r then matches + 1 else matches) rs (m::nat) =
   m + length (filter (\<lambda>r. withinOnePercent (s, r)) rs)"
  by (induction rs arbitrary: m) (simp_all add: amountsMatch_iff)

lemma filter_Pair:
  "filter withinOnePercent (map (Pair s) rs) = map (Pair s) (filter (\<lambda>r. withinOnePercent (s, r)) rs)"
  by (induction rs) simp_all

lemma outer_matches:
  "fold (\<lambda>s matches. fold (\<lambda>r matches. if amountsMatch s r then matches + 1 else matches) rs matches)
     ss (m::nat) =
   m + length (filter withinOnePercent (List.product ss rs))"
proof -
  have "fold (\<lambda>s a. a + length (filter (\<lambda>r. withinOnePercent (s, r)) rs)) ss m =
        m + length (filter withinOnePercent (List.product ss rs))" for m
    by (induction ss arbitrary: m) (simp_all add: filter_Pair)
  then show ?thesis by (simp add: inner_matches)
qed

lemma washMatches_count:
  "washMatches fl = length (filter withinOnePercent (List.product (sent fl) (received fl)))"
  by (simp add: washMatches_def outer_matches)

lemma flowsOf_mem:
  "distinct (map fst g) \<Longrightarrow> (cp, fl) \<in> set g \<Longrightarrow> flowsOf g cp = fl"
  by (simp add: flowsOf_def)

lemma washGroups_distinct: "distinct (map fst (washGroups addr ts))"
  using fold_washGroup[of addr ts "[]"] by (simp add: washGroups_def)

lemma washGroups_keys: "fst ` set (washGroups addr ts) = counterpartyOf addr ` set ts"
  using fold_washGroup[of addr ts "[]"] by (simp add: washGroups_def)

lemma washGroups_flows:
  "flowsOf (washGroups addr ts) cp =
     \<lparr>sent = outgoing addr ts cp, received = incoming addr ts cp\<rparr>"
  using fold_washGroup[of addr ts "[]" cp] by (simp add: washGroups_def flowsOf_def)

lemma washGroups_entry:
  assumes "(cp, fl) \<in> set (washGroups addr ts)"
  shows "fl = \<lparr>sent = outgoing addr ts cp, received = incoming addr ts cp\<rparr>"
  using flowsOf_mem[OF washGroups_distinct assms] washGroups_flows[of addr ts cp] by simp

lemma pairCount_key:
  assumes "0 < pairCount addr ts cp"
  shows "cp \<in> fst ` set (washGroups addr ts)"
proof -
  from assms have "outgoing addr ts cp \<noteq> []"
    by (auto simp: pairCount_def)
  then obtain tx where "tx \<in> set ts" "toLowerCase (tx_from tx) = addr" "toLowerCase (tx_to tx) = cp"
    by (auto simp: outgoing_def filter_empty_conv)
  then have "cp \<in> counterpartyOf addr ` set ts"
    by (force simp: counterpartyOf_def)
  then show ?thesis by (simp add: washGroups_keys)
qed

lemma pairCount_key3:
  "3 \<le> pairCount addr ts cp \<Longrightarrow> cp \<in> fst ` set (washGroups addr ts)"
  by (rule pairCount_key) simp

lemma washPair_entry:
  assumes "(cp, fl) \<in> set (washGroups addr ts)"
  shows "washPair (cp, fl) =
           (if 3 \<le> pairCount addr ts cp then [suspiciousEntry addr ts cp] else [])"
proof -
  note e = washGroups_entry[OF assms]
  have m: "washMatches fl = pairCount addr ts cp"
    by (simp add: washMatches_count pairCount_def e)
  have ne: "3 \<le> pairCount addr ts cp \<Longrightarrow> outgoing addr ts cp \<noteq> [] \<and> incoming addr ts cp \<noteq> []"
    by (auto simp: pairCount_def)
  have s: "sent fl = outgoing addr ts cp" "received fl = incoming addr ts cp"
    by (simp_all add: e)
  show ?thesis
    using ne by (auto simp: washPair_def m s WASH_TRADE_MIN_CYCLES_def suspiciousEntry_def)
qed

lemma suspiciousPairs_eq:
  "washSuspicious addr ts = map (suspiciousEntry addr ts) (suspiciousKeys addr ts)"
proof -
  have "concat (map washPair g) =
        map (suspiciousEntry addr ts) (filter (\<lambda>cp. 3 \<le> pairCount addr ts cp) (map fst g))"
    if "set g \<subseteq> set (washGroups addr ts)" for g
    using that
  proof (induction g)
    case Nil
    then show ?case by simp
  next
    case (Cons e g)
    obtain cp fl where e: "e = (cp, fl)" by (cases e)
    with Cons.prems have "(cp, fl) \<in> set (washGroups addr ts)" by simp
    from washPair_entry[OF this] Cons show ?case by (simp add: e)
  qed
  then show ?thesis by (simp add: washSuspicious_def suspiciousKeys_def)
qed

lemma suspicious_set: "set (suspiciousKeys addr ts) = {cp. 3 \<le> pairCount addr ts cp}"
  using pairCount_key3[of addr ts] by (auto simp: suspiciousKeys_def)

lemma suspicious_distinct: "distinct (suspiciousKeys addr ts)"
  unfolding suspiciousKeys_def using washGroups_distinct by (rule distinct_filter)

lemma suspicious_length:
  "length (washSuspicious addr ts) = card {cp. 3 \<le> pairCount addr ts cp}"
  using distinct_card[OF suspicious_distinct, of addr ts]
  by (simp add: suspiciousPairs_eq suspicious_set)

lemma detectWashTrading_eq:
  "detectWashTrading address ts =
     (if washSuspicious (toLowerCase address) ts = [] then None
      else Some \<lparr>ftype = ''WASH_TRADING'', f_severity = ''high'', riskImpact = 35,
                  confidence = min 95 (50 + real (length (washSuspicious (toLowerCase address) ts)) * 15),
                  f_evidence = WashEvidence (washSuspicious (toLowerCase address) ts)
                    (reduceSum sp_totalVolume (washSuspicious (toLowerCase address) ts))\<rparr>)"
  unfolding washSuspicious_def washGroups_def
  by (simp add: detectWashTrading_def Let_def del: concat_eq_Nil_conv)

lemma finite_suspicious: "finite {cp. 3 \<le> pairCount addr ts cp}"
  using suspicious_set[of addr ts, symmetric] by (metis List.finite_set)

lemma five_wash:
  "map_option (\<lambda>f. (ftype f, confidence f)) (detectWashTrading washAddress fiveRoundTrips) =
   Some (''WASH_TRADING'', 65)"
  by code_simp

lemma three_wash: "detectWashTrading washAddress threeOneWay = None"
  by code_simp

lemma all_within_product:
  assumes "\<forall>s\<in>set ss. \<forall>r\<in>set rs. withinOnePercent (s, r)"
  shows "filter withinOnePercent (List.product ss rs) = List.product ss rs"
  using assms by (auto simp: filter_id_conv)

lemma suspiciousEntry_mem:
  "3 \<le> pairCount addr ts cp \<Longrightarrow> suspiciousEntry addr ts cp \<in> set (washSuspicious addr ts)"
  using suspicious_set[of addr ts] by (auto simp: suspiciousPairs_eq)

lemma two_out: "length (outgoing (toLowerCase washAddress) twoRoundTrips washCounterparty) = 2"
  by code_simp

lemma two_in: "length (incoming (toLowerCase washAddress) twoRoundTrips washCounterparty) = 2"
  by code_simp

lemma two_match:
  "\<forall>s\<in>set (outgoing (toLowerCase washAddress) twoRoundTrips washCounterparty).
   \<forall>r\<in>set (incoming (toLowerCase washAddress) twoRoundTrips washCounterparty).
     \<bar>amountUSDC s - amountUSDC r\<bar> \<le> amountUSDC s / 100"
  by code_simp

lemma detectWashTrading_spec:
  "(case detectWashTrading address ts of
      None \<Rightarrow> \<forall>cp. pairCount (toLowerCase address) ts cp < 3
    | Some f \<Rightarrow>
        (\<exists>cp. 3 \<le> pairCount (toLowerCase address) ts cp) \<and>
        ftype f = ''WASH_TRADING'' \<and> f_severity f = ''high'' \<and> riskImpact f = 35 \<and>
        confidence f =
          min 95 (50 + 15 * real (card {cp. 3 \<le> pairCount (toLowerCase address) ts cp})))"
proof -
  define n where "n = card {cp. 3 \<le> pairCount (toLowerCase address) ts cp}"
  have len: "length (washSuspicious (toLowerCase address) ts) = n"
    by (simp add: suspicious_length n_def)
  have z: "n = 0 \<longleftrightarrow> (\<forall>cp. pairCount (toLowerCase address) ts cp < 3)"
    using finite_suspicious[of "toLowerCase address" ts] by (auto simp: n_def not_le)
  show ?thesis
  proof (cases "n = 0")
    case True
    then have "washSuspicious (toLowerCase address) ts = []"
      using len by simp
    then show ?thesis using True z by (simp add: detectWashTrading_eq)
  next
    case False
    then have "washSuspicious (toLowerCase address) ts \<noteq> []"
      using len by auto
    moreover have "\<exists>cp. 3 \<le> pairCount (toLowerCase address) ts cp"
      using False z by (auto simp: not_less)
    ultimately show ?thesis
      using len by (simp add: detectWashTrading_eq n_def mult.commute)
  qed
qed

text \<open>
  Claim C4.  The detector emits a finding exactly when some counterparty has at least 3
  (sent, received) pairs whose amounts differ by at most 1% of the sent amount; the
  finding is \<open>WASH_TRADING\<close>, severity high, riskImpact 35, with confidence
  \<open>min(95, 50 + 15 n)\<close> for \<open>n\<close> the number of such counterparties.  Five round trips
  of 1000 USDC between two addresses give a finding with confidence above 50 (it is 65),
  and three one-directional transfers of varying amounts to distinct counterparties give
  none.
\<close>

theorem C4_wash_trading_detector:
  "(case detectWashTrading address ts of
      None \<Rightarrow> \<forall>cp. pairCount (toLowerCase address) ts cp < 3
    | Some f \<Rightarrow>
        (\<exists>cp. 3 \<le> pairCount (toLowerCase address) ts cp) \<and>
        ftype f = ''WASH_TRADING'' \<and> f_severity f = ''high'' \<and> riskImpact f = 35 \<and>
        confidence f =
          min 95 (50 + 15 * real (card {cp. 3 \<le> pairCount (toLowerCase address) ts cp}))) \<and>
   (\<exists>f. detectWashTrading washAddress fiveRoundTrips = Some f \<and>
        ftype f = ''WASH_TRADING'' \<and> 50 < confidence f) \<and>
   detectWashTrading washAddress threeOneWay = None"
proof (intro conjI)
  show "case detectWashTrading address ts of
      None \<Rightarrow> \<forall>cp. pairCount (toLowerCase address) ts cp < 3
    | Some f \<Rightarrow>
        (\<exists>cp. 3 \<le> pairCount (toLowerCase address) ts cp) \<and>
        ftype f = ''WASH_TRADING'' \<and> f_severity f = ''high'' \<and> riskImpact f = 35 \<and>
        confidence f =
          min 95 (50 + 15 * real (card {cp. 3 \<le> pairCount (toLowerCase address) ts cp}))"
    by (rule detectWashTrading_spec)
  show "\<exists>f. detectWashTrading washAddress fiveRoundTrips = Some f \<and>
        ftype f = ''WASH_TRADING'' \<and> 50 < confidence f"
    using five_wash by (cases "detectWashTrading washAddress fiveRoundTrips") auto
  show "detectWashTrading washAddress threeOneWay = None"
    by (rule three_wash)
qed

text \<open>
  Claim C10.  The count of a counterparty runs over every (sent, received) pair: with
  exactly 2 sent and 2 received transfers, all four pairs within 1% of the sent amount, the
  count is 4, and the detector emits \<open>WASH_TRADING\<close> with an evidence entry for that
  counterparty that reports 2 sent, 2 received and 4 matching cycles.
\<close>

theorem C10_pair_count_is_cartesian:
  assumes "length (outgoing (toLowerCase address) ts cp) = 2"
    and "length (incoming (toLowerCase address) ts cp) = 2"
    and "\<forall>s\<in>set (outgoing (toLowerCase address) ts cp).
         \<forall>r\<in>set (incoming (toLowerCase address) ts cp).
           \<bar>amountUSDC s - amountUSDC r\<bar> \<le> amountUSDC s / 100"
  shows "pairCount (toLowerCase address) ts cp = 4 \<and>
         (\<exists>f pairs vol p. detectWashTrading address ts = Some f \<and> ftype f = ''WASH_TRADING'' \<and>
            f_evidence f = WashEvidence pairs vol \<and> p \<in> set pairs \<and>
            sp_counterparty p = cp \<and> sentCount p = 2 \<and> receivedCount p = 2 \<and>
            matchingAmountCycles p = 4)"
proof -
  have "\<forall>s\<in>set (outgoing (toLowerCase address) ts cp).
         \<forall>r\<in>set (incoming (toLowerCase address) ts cp). withinOnePercent (s, r)"
    using assms(3) by (simp add: withinOnePercent_def)
  from all_within_product[OF this]
  have pc: "pairCount (toLowerCase address) ts cp = 4"
    using assms(1,2) by (simp add: pairCount_def)
  then have mem: "suspiciousEntry (toLowerCase address) ts cp \<in> set (washSuspicious (toLowerCase address) ts)"
    by (intro suspiciousEntry_mem) simp
  then have ne: "washSuspicious (toLowerCase address) ts \<noteq> []" by auto
  have "sp_counterparty (suspiciousEntry (toLowerCase address) ts cp) = cp \<and>
        sentCount (suspiciousEntry (toLowerCase address) ts cp) = 2 \<and>
        receivedCount (suspiciousEntry (toLowerCase address) ts cp) = 2 \<and>
        matchingAmountCycles (suspiciousEntry (toLowerCase address) ts cp) = 4"
    using assms(1,2) pc by (simp add: suspiciousEntry_def)
  with mem ne pc show ?thesis
    by (simp add: detectWashTrading_eq) blast
qed

text \<open>The witness: two round trips of 1000 USDC between two addresses.\<close>

theorem C10_pair_count_is_cartesian_witness:
  "pairCount (toLowerCase washAddress) twoRoundTrips washCounterparty = 4 \<and>
   (\<exists>f pairs vol p. detectWashTrading washAddress twoRoundTrips = Some f \<and>
      ftype f = ''WASH_TRADING'' \<and> f_evidence f = WashEvidence pairs vol \<and> p \<in> set pairs \<and>
      sp_counterparty p = washCounterparty \<and> sentCount p = 2 \<and> receivedCount p = 2 \<and>
      matchingAmountCycles p = 4)"
  by (rule C10_pair_count_is_cartesian[OF two_out two_in two_match])

subsection \<open>Rounding to doubles\<close>

lemma bitLength_pos: "0 < n \<Longrightarrow> bitLength n = 1 + bitLength (n div 2)"
  by (subst bitLength.simps) simp

lemma bitLength_nonpos: "n \<le> 0 \<Longrightarrow> bitLength n = 0"
  by (subst bitLength.simps) simp

lemma bitLength_bounds:
  "0 < n \<Longrightarrow> 1 \<le> bitLength n \<and> 2 ^ nat (bitLength n - 1) \<le> n \<and> n < 2 ^ nat (bitLength n)"
proof (induction n rule: bitLength.induct)
  case (1 n)
  show ?case
  proof (cases "n = 1")
    case True
    then show ?thesis by (simp add: bitLength_pos bitLength_nonpos)
  next
    case False
    with 1(2) have m: "0 < n div 2" by simp
    define k where "k = bitLength (n div 2)"
    from 1(1)[OF _ m] 1(2) have ih: "1 \<le> k" "2 ^ nat (k - 1) \<le> n div 2" "n div 2 < 2 ^ nat k"
      by (simp_all add: k_def)
    have b: "bitLength n = 1 + k" using 1(2) by (simp add: bitLength_pos k_def)
    have p: "(2::int) ^ nat k = 2 * 2 ^ nat (k - 1)"
      using ih(1) by (metis Suc_nat_eq_nat_zadd1 add.commute diff_add_cancel diff_ge_0_iff_ge power_Suc)
    have p2: "(2::int) ^ nat (1 + k) = 2 * 2 ^ nat k"
      using ih(1) by (simp add: nat_add_distrib)
    have "2 * (n div 2) \<le> n" "n < 2 * (n div 2) + 2" by simp_all
    with ih p p2 show ?thesis unfolding b by simp
  qed
qed

lemma pow2_powr: "pow2 k = 2 powr (real_of_int k)"
proof (cases "0 \<le> k")
  case True
  then show ?thesis by (simp add: pow2_def powr_realpow[symmetric])
next
  case False
  then have r: "real_of_int k = - real (nat (- k))" by simp
  have "2 powr (real_of_int k) = 1 / 2 powr (real (nat (- k)))"
    unfolding r by (simp add: powr_minus_divide)
  also have "\<dots> = 1 / 2 ^ nat (- k)"
    by (simp only: powr_realpow[of 2 "nat (- k)", simplified])
  finally show ?thesis using False by (simp add: pow2_def)
qed

lemma pow2_pos: "0 < pow2 k"
  by (simp add: pow2_powr)

lemma pow2_add: "pow2 (a + b) = pow2 a * pow2 b"
  by (simp add: pow2_powr powr_add)

lemma pow2_mono: "a \<le> b \<Longrightarrow> pow2 a \<le> pow2 b"
  by (simp add: pow2_powr)

lemma pow2_less: "pow2 a < pow2 b \<longleftrightarrow> a < b"
  by (simp add: pow2_powr)

lemma pow2_nat: "0 \<le> k \<Longrightarrow> pow2 k = of_int (2 ^ nat k)"
  by (simp add: pow2_def)

lemma binaryExponent_bounds:
  assumes "0 < x"
  shows "pow2 (binaryExponent x) \<le> x \<and> x < pow2 (binaryExponent x + 1)"
proof (cases "1 \<le> x")
  case True
  then have n: "0 < \<lfloor>x\<rfloor>" by simp
  define k where "k = bitLength \<lfloor>x\<rfloor>"
  from bitLength_bounds[OF n] have b: "1 \<le> k" "2 ^ nat (k - 1) \<le> \<lfloor>x\<rfloor>" "\<lfloor>x\<rfloor> < 2 ^ nat k"
    by (simp_all add: k_def)
  have e: "binaryExponent x = k - 1" using True by (simp add: binaryExponent_def k_def)
  have "of_int (2 ^ nat (k - 1)) \<le> x" using b(2) by (meson le_floor_iff)
  moreover have "x < of_int (2 ^ nat k)" using b(3) by (meson floor_less_iff)
  ultimately show ?thesis using b(1) unfolding e by (simp add: pow2_nat)
next
  case False
  with assms have x: "0 < x" "x < 1" by simp_all
  then have "1 < 1 / x" by simp
  then have n: "0 < \<lceil>1 / x\<rceil> - 1" by (simp add: less_ceiling_iff)
  define m where "m = \<lceil>1 / x\<rceil> - 1"
  define k where "k = bitLength m"
  from bitLength_bounds[OF n] have b: "1 \<le> k" "2 ^ nat (k - 1) \<le> m" "m < 2 ^ nat k"
    by (simp_all add: k_def m_def)
  have e: "binaryExponent x = - k" using False by (simp add: binaryExponent_def k_def m_def)
  have m1: "of_int m < 1 / x" unfolding m_def by (metis ceiling_diff_one less_ceiling_iff zle_diff1_eq order_refl)
  have m2: "1 / x \<le> of_int (m + 1)" unfolding m_def by (simp add: ceiling_le_iff[symmetric])
  have "m + 1 \<le> 2 ^ nat k" using b(3) by simp
  then have "real_of_int (m + 1) \<le> real_of_int (2 ^ nat k)" by (simp only: of_int_le_iff)
  then have "real_of_int (m + 1) \<le> 2 ^ nat k" by simp
  with m2 have "1 / x \<le> 2 ^ nat k" by (rule order_trans)
  then have "1 / x \<le> pow2 k" using b(1) by (simp add: pow2_def)
  then have lo: "pow2 (- k) \<le> x"
    using x(1) pow2_pos[of k]
    by (simp add: pow2_powr powr_minus field_simps)
  have "(2::real) ^ nat (k - 1) \<le> of_int m" using b(2) by simp
  then have "(2::real) ^ nat (k - 1) < 1 / x" using m1 by (rule le_less_trans)
  then have "pow2 (k - 1) < 1 / x" using b(1) by (simp add: pow2_def)
  then have hi: "x < pow2 (- k + 1)"
    using x(1) pow2_pos[of "k - 1"]
    by (simp add: pow2_powr powr_minus field_simps powr_diff)
  show ?thesis unfolding e using lo hi by simp
qed

lemma binaryExponent_mono:
  assumes "0 < x" "x \<le> y"
  shows "binaryExponent x \<le> binaryExponent y"
proof (rule ccontr)
  assume "\<not> binaryExponent x \<le> binaryExponent y"
  then have "binaryExponent y + 1 \<le> binaryExponent x" by simp
  then have "pow2 (binaryExponent y + 1) \<le> pow2 (binaryExponent x)" by (rule pow2_mono)
  moreover have "y < pow2 (binaryExponent y + 1)" "pow2 (binaryExponent x) \<le> x"
    using binaryExponent_bounds[of x] binaryExponent_bounds[of y] assms by simp_all
  ultimately show False using assms(2) by simp
qed

lemma roundHalfEven_cases: "roundHalfEven x = \<lfloor>x\<rfloor> \<or> roundHalfEven x = \<lfloor>x\<rfloor> + 1"
  by (simp add: roundHalfEven_def Let_def)

lemma roundHalfEven_of_int: "roundHalfEven (of_int n) = n"
  by (simp add: roundHalfEven_def Let_def)

lemma roundHalfEven_mono:
  assumes "x \<le> y"
  shows "roundHalfEven x \<le> roundHalfEven y"
proof (cases "\<lfloor>x\<rfloor> = \<lfloor>y\<rfloor>")
  case True
  with assms have "x - of_int \<lfloor>x\<rfloor> \<le> y - of_int \<lfloor>y\<rfloor>" by simp
  then show ?thesis using True by (auto simp: roundHalfEven_def Let_def)
next
  case False
  with assms have "\<lfloor>x\<rfloor> < \<lfloor>y\<rfloor>" using floor_mono[of x y] by simp
  moreover have "roundHalfEven x \<le> \<lfloor>x\<rfloor> + 1" "\<lfloor>y\<rfloor> \<le> roundHalfEven y"
    using roundHalfEven_cases[of x] roundHalfEven_cases[of y] by auto
  ultimately show ?thesis by simp
qed

text \<open>The quantum of the doubles near a positive \<open>x\<close>.\<close>

lemma roundDouble_pos:
  "0 < x \<Longrightarrow>
   roundDouble x =
     of_int (roundHalfEven (x / pow2 (max (binaryExponent x - 52) (- 1074)))) *
       pow2 (max (binaryExponent x - 52) (- 1074))"
  by (simp add: roundDouble_def Let_def)

lemma roundDouble_minus: "roundDouble (- x) = - roundDouble x"
  by (simp add: roundDouble_def Let_def sgn_minus)

lemma roundDouble_nonneg: "0 \<le> x \<Longrightarrow> 0 \<le> roundDouble x"
proof (cases "x = 0")
  case True
  then show ?thesis by (simp add: roundDouble_def)
next
  case False
  assume "0 \<le> x"
  with False have x: "0 < x" by simp
  let ?q = "pow2 (max (binaryExponent x - 52) (- 1074))"
  have "0 \<le> x / ?q" using x pow2_pos[of "max (binaryExponent x - 52) (- 1074)"] by simp
  then have "roundHalfEven 0 \<le> roundHalfEven (x / ?q)" by (rule roundHalfEven_mono)
  then have "0 \<le> roundHalfEven (x / ?q)" using roundHalfEven_of_int[of 0] by simp
  then show ?thesis
    using pow2_pos[of "max (binaryExponent x - 52) (- 1074)"] by (simp add: roundDouble_pos[OF x])
qed

lemma roundDouble_abs: "\<bar>roundDouble x\<bar> = roundDouble \<bar>x\<bar>"
proof (cases "0 \<le> x")
  case True
  then show ?thesis using roundDouble_nonneg[of x] by simp
next
  case False
  then have "0 \<le> - x" by simp
  from roundDouble_nonneg[OF this] False show ?thesis by (simp add: roundDouble_minus)
qed

text \<open>A positive \<open>x\<close> below a multiple of its quantum rounds to at most that multiple, and
  one above a multiple to at least that.\<close>

lemma roundDouble_le_multiple:
  assumes "0 < x" "x \<le> of_int n * pow2 (max (binaryExponent x - 52) (- 1074))"
  shows "roundDouble x \<le> of_int n * pow2 (max (binaryExponent x - 52) (- 1074))"
proof -
  let ?q = "pow2 (max (binaryExponent x - 52) (- 1074))"
  have q: "0 < ?q" by (rule pow2_pos)
  from assms(2) q have "x / ?q \<le> of_int n" by (simp add: field_simps)
  then have "roundHalfEven (x / ?q) \<le> roundHalfEven (of_int n)" by (rule roundHalfEven_mono)
  then have "roundHalfEven (x / ?q) \<le> n" by (simp only: roundHalfEven_of_int)
  then have "real_of_int (roundHalfEven (x / ?q)) \<le> of_int n" by simp
  then show ?thesis using q by (simp add: roundDouble_pos[OF assms(1)])
qed

lemma roundDouble_ge_multiple:
  assumes "0 < x" "of_int n * pow2 (max (binaryExponent x - 52) (- 1074)) \<le> x"
  shows "of_int n * pow2 (max (binaryExponent x - 52) (- 1074)) \<le> roundDouble x"
proof -
  let ?q = "pow2 (max (binaryExponent x - 52) (- 1074))"
  have q: "0 < ?q" by (rule pow2_pos)
  from assms(2) q have "of_int n \<le> x / ?q" by (simp add: field_simps)
  then have "roundHalfEven (of_int n) \<le> roundHalfEven (x / ?q)" by (rule roundHalfEven_mono)
  then have "n \<le> roundHalfEven (x / ?q)" by (simp only: roundHalfEven_of_int)
  then have "real_of_int n \<le> of_int (roundHalfEven (x / ?q))" by simp
  then show ?thesis using q by (simp add: roundDouble_pos[OF assms(1)])
qed

lemma roundDouble_mono_pos:
  assumes "0 < x" "x \<le> y"
  shows "roundDouble x \<le> roundDouble y"
proof -
  define ex where "ex = binaryExponent x"
  define ey where "ey = binaryExponent y"
  define kx where "kx = max (ex - 52) (- 1074)"
  define ky where "ky = max (ey - 52) (- 1074)"
  have y: "0 < y" using assms by simp
  have e: "ex \<le> ey" unfolding ex_def ey_def using assms by (rule binaryExponent_mono)
  then have k: "kx \<le> ky" by (simp add: kx_def ky_def)
  have rx: "roundDouble x = of_int (roundHalfEven (x / pow2 kx)) * pow2 kx"
    unfolding kx_def ex_def by (rule roundDouble_pos[OF assms(1)])
  have ry: "roundDouble y = of_int (roundHalfEven (y / pow2 ky)) * pow2 ky"
    unfolding ky_def ey_def by (rule roundDouble_pos[OF y])
  show ?thesis
  proof (cases "kx = ky")
    case True
    have "x / pow2 ky \<le> y / pow2 ky" using assms(2) pow2_pos[of ky] by (simp add: divide_right_mono)
    then have "roundHalfEven (x / pow2 ky) \<le> roundHalfEven (y / pow2 ky)" by (rule roundHalfEven_mono)
    then have "real_of_int (roundHalfEven (x / pow2 ky)) \<le> of_int (roundHalfEven (y / pow2 ky))" by simp
    then show ?thesis unfolding rx ry True using pow2_pos[of ky] by simp
  next
    case False
    with k have lt: "kx < ky" by simp
    then have ky: "ky = ey - 52" "ex < ey" by (auto simp: kx_def ky_def)
    txt \<open>\<open>y\<close> is at least \<open>2\<^sup>5\<^sup>2\<close> quanta.\<close>
    have "pow2 ey \<le> y" using binaryExponent_bounds[OF y] by (simp add: ey_def)
    moreover have py: "pow2 ey = of_int (2 ^ 52) * pow2 ky"
      using pow2_add[of 52 ky] pow2_nat[of 52] by (simp add: ky(1))
    ultimately have "of_int (2 ^ 52) * pow2 (max (binaryExponent y - 52) (- 1074)) \<le> y"
      by (simp add: ky_def ey_def)
    from roundDouble_ge_multiple[OF y this] have lo: "pow2 ey \<le> roundDouble y"
      unfolding py by (simp add: ky_def ey_def)
    txt \<open>\<open>x\<close> is at most \<open>2\<^sup>n\<close> quanta, which is at most \<open>2\<^sup>e\<close> for the exponent \<open>e\<close> of \<open>y\<close>.\<close>
    define n where "n = nat (ex + 1 - kx)"
    have xb: "x < pow2 (ex + 1)" using binaryExponent_bounds[OF assms(1)] by (simp add: ex_def)
    have nq: "of_int (2 ^ n) * pow2 kx = pow2 (int n + kx)"
      using pow2_add[of "int n" kx] pow2_nat[of "int n"] by simp
    have "ex + 1 \<le> int n + kx" by (simp add: n_def)
    then have "pow2 (ex + 1) \<le> pow2 (int n + kx)" by (rule pow2_mono)
    with xb have "x \<le> of_int (2 ^ n) * pow2 (max (binaryExponent x - 52) (- 1074))"
      unfolding nq[symmetric] by (simp add: kx_def ex_def)
    from roundDouble_le_multiple[OF assms(1) this]
    have hi: "roundDouble x \<le> pow2 (int n + kx)"
      unfolding nq[symmetric] by (simp add: kx_def ex_def)
    have "int n + kx \<le> ey" using lt ky by (auto simp: n_def)
    then have "pow2 (int n + kx) \<le> pow2 ey" by (rule pow2_mono)
    with hi lo show ?thesis by simp
  qed
qed

lemma roundDouble_mono:
  assumes "0 \<le> x" "x \<le> y"
  shows "roundDouble x \<le> roundDouble y"
proof (cases "x = 0")
  case True
  then show ?thesis using roundDouble_nonneg[of y] assms by (simp add: roundDouble_def)
next
  case False
  with assms(1) have "0 < x" by simp
  then show ?thesis using assms(2) by (rule roundDouble_mono_pos)
qed

lemma literal_five_percent: "5 / 100 \<le> roundDouble (5 / 100)"
  by code_simp

lemma exact_five_percent:
  assumes "\<bar>r - s\<bar> \<le> r * (5 / 100)"
  shows "\<bar>jsSub r s\<bar> \<le> jsMul r (roundDouble (5 / 100))"
proof -
  have "0 \<le> \<bar>r - s\<bar>" by simp
  then have "0 \<le> r * (5 / 100)" using assms by (rule order_trans)
  then have r: "0 \<le> r" by simp
  then have "r * (5 / 100) \<le> r * roundDouble (5 / 100)"
    using literal_five_percent by (rule mult_left_mono[rotated])
  with assms have "\<bar>r - s\<bar> \<le> r * roundDouble (5 / 100)" by simp
  then have "roundDouble \<bar>r - s\<bar> \<le> roundDouble (r * roundDouble (5 / 100))"
    by (rule roundDouble_mono[rotated]) simp
  then show ?thesis by (simp add: jsSub_def jsMul_def roundDouble_abs)
qed

subsection \<open>Grouping and flash loans\<close>

lemma blockGroup_eq: "blockGroup = groupPush blockNumber"
  by (simp add: fun_eq_iff blockGroup_def groupPush_def)

lemma groupPush_keys: "fst ` set (groupPush key x g) = insert (key x) (fst ` set g)"
  by (auto simp: groupPush_def AList.dom_update)

lemma groupPush_distinct: "distinct (map fst g) \<Longrightarrow> distinct (map fst (groupPush key x g))"
  by (simp add: groupPush_def AList.distinct_update)

lemma groupPush_bucket:
  "bucket (groupPush key x g) k = bucket g k @ filter (\<lambda>y. key y = k) [x]"
  by (auto simp: groupPush_def bucket_def AList.update_conv' split: option.splits)

lemma fold_groupPush:
  "fst ` set (fold (groupPush key) xs g) = key ` set xs \<union> fst ` set g \<and>
   (distinct (map fst g) \<longrightarrow> distinct (map fst (fold (groupPush key) xs g))) \<and>
   bucket (fold (groupPush key) xs g) k = bucket g k @ filter (\<lambda>y. key y = k) xs"
proof (induction xs arbitrary: g)
  case Nil
  then show ?case by simp
next
  case (Cons x xs)
  show ?case
    using Cons.IH[of "groupPush key x g"]
    by (auto simp: groupPush_keys groupPush_distinct groupPush_bucket)
qed

lemma groupBy_distinct: "distinct (map fst (groupBy key xs))"
  using fold_groupPush[of key xs "[]"] by (simp add: groupBy_def)

lemma groupBy_keys: "fst ` set (groupBy key xs) = key ` set xs"
  using fold_groupPush[of key xs "[]"] by (simp add: groupBy_def)

lemma groupBy_entry:
  assumes "(k, ys) \<in> set (groupBy key xs)"
  shows "ys = filter (\<lambda>y. key y = k) xs"
proof -
  have "map_of (groupBy key xs) k = Some ys"
    using assms groupBy_distinct[of key xs] by (rule map_of_is_SomeI[rotated])
  then have "bucket (groupBy key xs) k = ys" by (simp add: bucket_def)
  moreover have "bucket (groupBy key xs) k = filter (\<lambda>y. key y = k) xs"
    using fold_groupPush[of key xs "[]" k] by (simp add: groupBy_def bucket_def)
  ultimately show ?thesis by simp
qed

lemma groupBy_map:
  "map f (groupBy key xs) = map (\<lambda>k. f (k, filter (\<lambda>y. key y = k) xs)) (map fst (groupBy key xs))"
proof -
  have "map f g = map (\<lambda>k. f (k, filter (\<lambda>y. key y = k) xs)) (map fst g)"
    if "set g \<subseteq> set (groupBy key xs)" for g
    using that
  proof (induction g)
    case Nil
    then show ?case by simp
  next
    case (Cons e g)
    obtain k ys where e: "e = (k, ys)" by (cases e)
    with Cons.prems have "(k, ys) \<in> set (groupBy key xs)" by simp
    from groupBy_entry[OF this] Cons show ?case by (simp add: e)
  qed
  from this[OF subset_refl] show ?thesis .
qed

lemma objectEntries_mset: "mset (objectEntries kvs) = mset kvs"
  by (simp add: objectEntries_def)

lemma flashMatch_iff: "flashMatch recv send = withinFivePercent (recv, send)"
  by (simp add: flashMatch_def withinFivePercent_def Let_def)

lemma length_concat_singletons:
  "length (concat (map (\<lambda>y. if P y then [f y] else []) ys)) = length (filter P ys)"
  by (induction ys) simp_all

lemma filter_Pair5:
  "filter withinFivePercent (map (Pair r) ss) = map (Pair r) (filter (\<lambda>s. withinFivePercent (r, s)) ss)"
  by (induction ss) simp_all

lemma length_nested:
  "length (concat (map (\<lambda>recv. concat (map (\<lambda>send. if withinFivePercent (recv, send) then [f recv send] else []) ss)) rs)) =
   length (filter withinFivePercent (List.product rs ss))"
  by (induction rs) (simp_all add: length_concat_singletons filter_Pair5)

lemma product_Nil_right: "List.product rs [] = []"
  by (induction rs) simp_all

lemma flashBlock_length:
  "length (flashBlock address (b, filter (\<lambda>tx. blockNumber tx = b) ts)) = flashPairCount address ts b"
proof -
  have l: "filter (\<lambda>tx. FLASH_LOAN_MIN_AMOUNT \<le> amountUSDC tx) (filter (\<lambda>tx. blockNumber tx = b) ts) =
        largeInBlock ts b"
    by (simp add: largeInBlock_def FLASH_LOAN_MIN_AMOUNT_def conj_commute)
  have e: "List.product rs ss = [] \<longleftrightarrow> rs = [] \<or> ss = []" for rs ss :: "transfer list"
    by (induction rs) auto
  show ?thesis
    unfolding flashBlock_def flashPairCount_def
    apply (simp only: prod.case l Let_def flashMatch_iff length_nested)
    apply (auto simp: length_nested product_Nil_right)
    done
qed

lemma detectFlashLoanPatterns_eq:
  "detectFlashLoanPatterns address chain ts =
     (if flashHits address ts = [] then None
      else Some \<lparr>ftype = ''FLASH_LOAN_PATTERN'', f_severity = ''high'', riskImpact = 40,
                  confidence = min 90 (40 + real (length (flashHits address ts)) * 20),
                  f_evidence = FlashEvidence (flashHits address ts)
                    (reduceSum receivedAmount (flashHits address ts))\<rparr>)"
  unfolding flashHits_def groupBy_def blockGroup_eq[symmetric]
  by (simp add: detectFlashLoanPatterns_def Let_def del: concat_eq_Nil_conv)

lemma flashHits_length:
  "length (flashHits address ts) = (\<Sum>b\<in>blockNumber ` set ts. flashPairCount address ts b)"
proof -
  let ?G = "groupBy blockNumber ts"
  let ?h = "\<lambda>e. length (flashBlock address e)"
  have "length (flashHits address ts) = sum_list (map ?h (objectEntries ?G))"
    by (simp add: flashHits_def length_concat comp_def)
  also have "\<dots> = sum_mset (image_mset ?h (mset (objectEntries ?G)))"
    by (simp add: sum_mset_sum_list[symmetric])
  also have "\<dots> = sum_list (map ?h ?G)"
    by (simp add: objectEntries_mset sum_mset_sum_list[symmetric])
  also have "\<dots> = sum_list (map (flashPairCount address ts) (map fst ?G))"
    by (simp add: groupBy_map[of ?h] flashBlock_length comp_def)
  also have "\<dots> = (\<Sum>b\<in>set (map fst ?G). flashPairCount address ts b)"
    using groupBy_distinct[of blockNumber ts] by (rule sum_list_distinct_conv_sum_set)
  finally show ?thesis by (simp add: groupBy_keys)
qed

lemma flashPairCount_outside:
  "b \<notin> blockNumber ` set ts \<Longrightarrow> flashPairCount address ts b = 0"
proof -
  assume "b \<notin> blockNumber ` set ts"
  then have "largeInBlock ts b = []"
    by (auto simp: largeInBlock_def filter_empty_conv)
  then show ?thesis by (simp add: flashPairCount_def)
qed

lemma flashHits_empty:
  "flashHits address ts = [] \<longleftrightarrow> (\<forall>b. flashPairCount address ts b = 0)"
proof -
  have "flashHits address ts = [] \<longleftrightarrow> length (flashHits address ts) = 0" by simp
  also have "\<dots> \<longleftrightarrow> (\<forall>b\<in>blockNumber ` set ts. flashPairCount address ts b = 0)"
    unfolding flashHits_length by simp
  also have "\<dots> \<longleftrightarrow> (\<forall>b. flashPairCount address ts b = 0)"
    using flashPairCount_outside[of _ ts address] by metis
  finally show ?thesis .
qed

lemma detectFlashLoanPatterns_spec:
  "(case detectFlashLoanPatterns address chain ts of
      None \<Rightarrow> \<forall>b. flashPairCount address ts b = 0
    | Some f \<Rightarrow>
        (\<exists>b. 0 < flashPairCount address ts b) \<and>
        ftype f = ''FLASH_LOAN_PATTERN'' \<and> f_severity f = ''high'' \<and> riskImpact f = 40 \<and>
        confidence f =
          min 90 (40 + 20 * real (\<Sum>b\<in>blockNumber ` set ts. flashPairCount address ts b)))"
proof (cases "flashHits address ts = []")
  case True
  then show ?thesis using flashHits_empty[of address ts] by (simp add: detectFlashLoanPatterns_eq)
next
  case False
  then have "\<exists>b. 0 < flashPairCount address ts b"
    using flashHits_empty[of address ts] by auto
  then show ?thesis
    using False by (simp add: detectFlashLoanPatterns_eq flashHits_length[symmetric] mult.commute)
qed

lemma matchedBlocks_set:
  "set (matchedBlocks address ts) = {b \<in> blockNumber ` set ts. 0 < flashPairCount address ts b}"
  unfolding matchedBlocks_def by (simp only: set_filter set_remdups set_map)

lemma matchedBlocks_distinct: "distinct (matchedBlocks address ts)"
  unfolding matchedBlocks_def by (rule distinct_filter) (rule distinct_remdups)

lemma matchedBlocks_count:
  assumes "onePairPerBlock address ts"
  shows "(\<Sum>b\<in>blockNumber ` set ts. flashPairCount address ts b) = length (matchedBlocks address ts)"
proof -
  let ?S = "blockNumber ` set ts"
  let ?f = "flashPairCount address ts"
  let ?M = "{b \<in> ?S. 0 < ?f b}"
  have one: "?f b = 1" if "b \<in> ?M" for b
  proof -
    from that have "b \<in> set (matchedBlocks address ts)"
      by (simp only: matchedBlocks_set)
    with assms show ?thesis
      unfolding onePairPerBlock_def list_all_iff by (rule bspec)
  qed
  have "sum ?f ?M = sum ?f ?S"
  proof (rule sum.mono_neutral_left)
    show "finite ?S" by simp
    show "?M \<subseteq> ?S" by (rule Collect_restrict)
    show "\<forall>i\<in>?S - ?M. ?f i = 0" by simp
  qed
  moreover have "sum ?f ?M = sum (\<lambda>b. 1) ?M"
    using one by (rule sum.cong[OF refl])
  moreover have "sum (\<lambda>b. 1::nat) ?M = card ?M" by simp
  moreover have "card ?M = length (matchedBlocks address ts)"
    using distinct_card[OF matchedBlocks_distinct[of address ts]]
    by (simp only: matchedBlocks_set)
  ultimately show ?thesis by simp
qed

lemma same_block_count: "flashPairCount flashAddress sameBlockPair 5000 = 1"
  by code_simp

lemma same_block_matched: "matchedBlocks flashAddress sameBlockPair = [5000]"
  by code_simp

lemma same_block_one: "onePairPerBlock flashAddress sameBlockPair"
  by code_simp

lemma same_block_flash:
  "map_option ftype (detectFlashLoanPatterns flashAddress ''ethereum'' sameBlockPair) =
   Some ''FLASH_LOAN_PATTERN''"
  by code_simp

lemma uneven_none: "detectFlashLoanPatterns flashAddress ''ethereum'' unevenPair = None"
  by code_simp

lemma uneven_blocks: "claimMatchedBlocks flashAddress unevenPair = [5000]"
  by code_simp

text \<open>
  Where a block holds several matching pairs, \<open>suspiciousBlocks\<close> holds one entry for each
  pair, although its name and the message of the finding count blocks: two receipts and
  one send of 50 000 USDC in block 5000 give two entries and the confidence 80.
\<close>

lemma two_receives_confidence:
  "map_option confidence (detectFlashLoanPatterns flashAddress ''ethereum'' twoReceivesOneSend) = Some 80"
  by code_simp

lemma two_receives_blocks: "matchedBlocks flashAddress twoReceivesOneSend = [5000]"
  by code_simp

text \<open>
  The rounding decides pairs at the boundary: the exact difference of the two amounts of
  \<open>roundingPair\<close> is more than 5% of the received one, the rounded difference equals the
  rounded product, and the detector emits the finding.
\<close>

lemma rounding_pair_exact:
  "\<not> \<bar>jsDiv 110628878580 1000000 - jsDiv 116160322509 1000000\<bar> \<le>
       jsDiv 110628878580 1000000 * 5 / 100"
  by code_simp

lemma rounding_pair_flash:
  "map_option ftype (detectFlashLoanPatterns flashAddress ''ethereum'' roundingPair) =
   Some ''FLASH_LOAN_PATTERN''"
  by code_simp

text \<open>
  Claim C5, as amended.  The detector emits a finding exactly when some block holds at
  least two transfers of at least 10 000 USDC, one received by the address and one sent by
  it, whose amounts differ by at most 5% of the received amount in either direction, as
  the code computes it in doubles: \<open>\<bar>received - sent\<bar> \<le> received * 0.05\<close>.  The finding is
  \<open>FLASH_LOAN_PATTERN\<close>, severity high, riskImpact 40.  When no block holds more than one
  matching pair, its confidence is \<open>min(90, 40 + 20 n)\<close> for \<open>n\<close> the number of blocks
  that hold a matching pair.  Every pair whose amounts differ, in exact arithmetic, by at
  most 5% of the received amount passes the test of the code.  A same-block receive of
  50 000 USDC followed by a send of 50 100 USDC triggers the finding.
\<close>

theorem C5_flash_loan_detector:
  "(case detectFlashLoanPatterns address chain ts of
      None \<Rightarrow> \<forall>b. flashPairCount address ts b = 0
    | Some f \<Rightarrow>
        (\<exists>b. 0 < flashPairCount address ts b) \<and>
        ftype f = ''FLASH_LOAN_PATTERN'' \<and> f_severity f = ''high'' \<and> riskImpact f = 40 \<and>
        (onePairPerBlock address ts \<longrightarrow>
           confidence f = min 90 (40 + 20 * real (length (matchedBlocks address ts))))) \<and>
   (\<forall>recv send.
      \<bar>amountUSDC recv - amountUSDC send\<bar> \<le> amountUSDC recv * (5 / 100) \<longrightarrow>
      withinFivePercent (recv, send)) \<and>
   (\<exists>f. detectFlashLoanPatterns flashAddress ''ethereum'' sameBlockPair = Some f \<and>
        ftype f = ''FLASH_LOAN_PATTERN'')"
proof (intro conjI)
  show "\<forall>recv send.
      \<bar>amountUSDC recv - amountUSDC send\<bar> \<le> amountUSDC recv * (5 / 100) \<longrightarrow>
      withinFivePercent (recv, send)"
  proof (intro allI impI)
    fix recv send :: transfer
    assume "\<bar>amountUSDC recv - amountUSDC send\<bar> \<le> amountUSDC recv * (5 / 100)"
    then show "withinFivePercent (recv, send)"
      unfolding withinFivePercent_def fst_conv snd_conv by (rule exact_five_percent)
  qed
  show "case detectFlashLoanPatterns address chain ts of
      None \<Rightarrow> \<forall>b. flashPairCount address ts b = 0
    | Some f \<Rightarrow>
        (\<exists>b. 0 < flashPairCount address ts b) \<and>
        ftype f = ''FLASH_LOAN_PATTERN'' \<and> f_severity f = ''high'' \<and> riskImpact f = 40 \<and>
        (onePairPerBlock address ts \<longrightarrow>
           confidence f = min 90 (40 + 20 * real (length (matchedBlocks address ts))))"
  proof (cases "detectFlashLoanPatterns address chain ts")
    case None
    then show ?thesis
      using detectFlashLoanPatterns_spec[where address = address and chain = chain and ts = ts]
      by simp
  next
    case (Some f)
    with detectFlashLoanPatterns_spec[where address = address and chain = chain and ts = ts]
    have a: "\<exists>b. 0 < flashPairCount address ts b" "ftype f = ''FLASH_LOAN_PATTERN''"
      "f_severity f = ''high''" "riskImpact f = 40"
      and c: "confidence f =
          min 90 (40 + 20 * real (\<Sum>b\<in>blockNumber ` set ts. flashPairCount address ts b))"
      by (simp_all del: of_nat_sum)
    have "confidence f = min 90 (40 + 20 * real (length (matchedBlocks address ts)))"
      if "onePairPerBlock address ts"
      unfolding c matchedBlocks_count[OF that] ..
    with a Some show ?thesis by simp
  qed
  show "\<exists>f. detectFlashLoanPatterns flashAddress ''ethereum'' sameBlockPair = Some f \<and>
        ftype f = ''FLASH_LOAN_PATTERN''"
    using same_block_flash
    by (cases "detectFlashLoanPatterns flashAddress ''ethereum'' sameBlockPair") auto
qed

theorem C5_flash_loan_detector_witness:
  "onePairPerBlock flashAddress sameBlockPair \<and>
   matchedBlocks flashAddress sameBlockPair = [5000] \<and>
   map_option confidence (detectFlashLoanPatterns flashAddress ''ethereum'' sameBlockPair) = Some 60 \<and>
   \<bar>amountUSDC (hd sameBlockPair) - amountUSDC (last sameBlockPair)\<bar> \<le>
     amountUSDC (hd sameBlockPair) * (5 / 100) \<and>
   withinFivePercent (hd sameBlockPair, last sameBlockPair)"
proof -
  note t = C5_flash_loan_detector[where address = flashAddress and chain = "''ethereum''"
      and ts = sameBlockPair]
  from t[THEN conjunct2, THEN conjunct2] obtain f where
    f: "detectFlashLoanPatterns flashAddress ''ethereum'' sameBlockPair = Some f"
    by (elim exE conjE)
  from t[THEN conjunct1] have
    "onePairPerBlock flashAddress sameBlockPair \<longrightarrow>
       confidence f = min 90 (40 + 20 * real (length (matchedBlocks flashAddress sameBlockPair)))"
    unfolding f by simp
  then have c: "confidence f = 60"
    using same_block_one by (simp add: same_block_matched)
  have e: "\<bar>amountUSDC (hd sameBlockPair) - amountUSDC (last sameBlockPair)\<bar> \<le>
     amountUSDC (hd sameBlockPair) * (5 / 100)"
    by (simp add: sameBlockPair_def)
  from t[THEN conjunct2, THEN conjunct1] e
  have "withinFivePercent (hd sameBlockPair, last sameBlockPair)" by blast
  with c e show ?thesis
    using f same_block_one same_block_matched by simp
qed

text \<open>
  The counterexample to C5 as stated: one block with a receipt of 100 000 USDC and a send
  of 50 000 USDC.  Both transfers qualify and received \<open>\<ge>\<close> sent \<open>-\<close> tolerance holds, so
  the claim's condition is met; the code compares the absolute difference with 5% of the
  received amount and emits nothing.
\<close>

theorem C5_counterexample:
  "detectFlashLoanPatterns flashAddress ''ethereum'' unevenPair = None \<and>
   claimMatchedBlocks flashAddress unevenPair = [5000]"
  by (simp add: uneven_none uneven_blocks)

subsection \<open>Rapid bridging\<close>

lemma chainGroup_eq: "chainGroup = groupPush sourceChain"
  by (simp add: fun_eq_iff chainGroup_def groupPush_def)

lemma fold_max_char:
  fixes m :: "'a::linorder"
  shows "m \<le> fold (\<lambda>x m. max m (f x)) xs m \<and>
         (\<forall>x\<in>set xs. f x \<le> fold (\<lambda>x m. max m (f x)) xs m) \<and>
         (fold (\<lambda>x m. max m (f x)) xs m = m \<or> fold (\<lambda>x m. max m (f x)) xs m \<in> f ` set xs)"
proof (induction xs arbitrary: m)
  case Nil
  then show ?case by simp
next
  case (Cons x xs)
  from Cons.IH[of "max m (f x)"] show ?case
    by (auto simp: max_def split: if_splits)
qed

lemma sorted_takeWhile_filter:
  "sorted (map b xs) \<Longrightarrow> takeWhile (\<lambda>d. b d \<le> (t::int)) xs = filter (\<lambda>d. b d \<le> t) xs"
proof (induction xs)
  case Nil
  then show ?case by simp
next
  case (Cons x xs)
  show ?case
  proof (cases "b x \<le> t")
    case True
    with Cons show ?thesis by simp
  next
    case False
    with Cons.prems have "\<forall>y\<in>set xs. \<not> b y \<le> t" by auto
    then have "filter (\<lambda>d. b d \<le> t) xs = []" by (simp add: filter_empty_conv)
    with False show ?thesis by simp
  qed
qed

lemma sorted_filter_dropWhile:
  "sorted (map b xs) \<Longrightarrow> filter (\<lambda>d. (lo::int) \<le> b d) xs = dropWhile (\<lambda>d. b d < lo) xs"
proof (induction xs)
  case Nil
  then show ?case by simp
next
  case (Cons x xs)
  show ?case
  proof (cases "b x < lo")
    case True
    with Cons show ?thesis by simp
  next
    case False
    with Cons.prems have "\<forall>y\<in>set xs. lo \<le> b y" by auto
    then have "filter (\<lambda>d. lo \<le> b d) xs = xs" by (simp add: filter_id_conv)
    with False show ?thesis by simp
  qed
qed

lemma length_filter_mono:
  "(\<And>x. x \<in> set xs \<Longrightarrow> P x \<Longrightarrow> Q x) \<Longrightarrow> length (filter P xs) \<le> length (filter Q xs)"
  by (induction xs) auto

lemma burstAt_filter:
  assumes "sorted (map dep_blockNumber srt)" "i < length srt"
  shows "burstAt srt i =
           length (filter (\<lambda>d. dep_blockNumber d \<le> dep_blockNumber (srt ! i) + 50) (drop i srt))"
proof -
  have s: "sorted (map dep_blockNumber (drop (Suc i) srt))"
    using assms(1) by (simp add: drop_map[symmetric] sorted_wrt_drop)
  have c: "(\<lambda>d. dep_blockNumber d - dep_blockNumber (srt ! i) \<le> 50) =
           (\<lambda>d. dep_blockNumber d \<le> dep_blockNumber (srt ! i) + 50)"
    by (auto simp: fun_eq_iff)
  have "drop i srt = srt ! i # drop (Suc i) srt"
    using assms(2) by (simp add: Cons_nth_drop_Suc)
  then show ?thesis
    by (simp add: burstAt_def c sorted_takeWhile_filter[OF s])
qed

lemma burstAt_upper:
  assumes "sorted (map dep_blockNumber srt)" "i < length srt"
  shows "burstAt srt i \<le>
           length (filter (\<lambda>d. dep_blockNumber (srt ! i) \<le> dep_blockNumber d \<and>
                               dep_blockNumber d \<le> dep_blockNumber (srt ! i) + 50) srt)"
proof -
  let ?P = "\<lambda>d. dep_blockNumber (srt ! i) \<le> dep_blockNumber d \<and>
                 dep_blockNumber d \<le> dep_blockNumber (srt ! i) + 50"
  have ge: "dep_blockNumber (srt ! i) \<le> dep_blockNumber d" if "d \<in> set (drop i srt)" for d
  proof -
    from that obtain j where j: "j < length (drop i srt)" "d = drop i srt ! j"
      by (auto simp: in_set_conv_nth)
    then have "d = srt ! (i + j)" "i + j < length srt" by auto
    with assms(1) show ?thesis
      using sorted_nth_mono[of "map dep_blockNumber srt" i "i + j"] assms(2) by simp
  qed
  have "burstAt srt i = length (filter ?P (drop i srt))"
    unfolding burstAt_filter[OF assms]
    by (rule arg_cong[where f = length], rule filter_cong) (auto simp: ge)
  also have "\<dots> \<le> length (filter ?P (take i srt @ drop i srt))"
    by (simp only: filter_append length_append le_add2)
  finally show ?thesis by simp
qed

lemma burstAt_lower:
  assumes "sorted (map dep_blockNumber srt)"
  shows "filter (\<lambda>d. lo \<le> dep_blockNumber d \<and> dep_blockNumber d \<le> lo + 50) srt = [] \<or>
         (\<exists>i<length srt. length (filter (\<lambda>d. lo \<le> dep_blockNumber d \<and>
                                               dep_blockNumber d \<le> lo + 50) srt) \<le> burstAt srt i)"
proof -
  let ?W = "filter (\<lambda>d. lo \<le> dep_blockNumber d \<and> dep_blockNumber d \<le> lo + 50) srt"
  let ?D = "dropWhile (\<lambda>d. dep_blockNumber d < lo) srt"
  let ?i = "length (takeWhile (\<lambda>d. dep_blockNumber d < lo) srt)"
  have "?W = filter (\<lambda>d. dep_blockNumber d \<le> lo + 50) (filter (\<lambda>d. lo \<le> dep_blockNumber d) srt)"
    by (simp add: conj_commute)
  then have w: "?W = filter (\<lambda>d. dep_blockNumber d \<le> lo + 50) ?D"
    by (simp only: sorted_filter_dropWhile[OF assms, of lo])
  show ?thesis
  proof (cases "?D = []")
    case True
    have "?W = []" by (simp only: w True filter.simps)
    then show ?thesis by (rule disjI1)
  next
    case False
    have d: "?D = drop ?i srt" by (rule dropWhile_eq_drop)
    with False have i: "?i < length srt" by auto
    have "hd ?D = srt ! ?i" using False d i by (simp add: hd_drop_conv_nth)
    moreover have "\<not> dep_blockNumber (hd ?D) < lo" using False by (rule hd_dropWhile)
    ultimately have lo: "lo \<le> dep_blockNumber (srt ! ?i)" by simp
    have "length ?W \<le> length (filter (\<lambda>d. dep_blockNumber d \<le> dep_blockNumber (srt ! ?i) + 50) (drop ?i srt))"
      unfolding w d using lo by (intro length_filter_mono) auto
    then have "length ?W \<le> burstAt srt ?i"
      by (simp add: burstAt_filter[OF assms i])
    with i show ?thesis by blast
  qed
qed

lemma chainDepositsOf_sorted: "sorted (map dep_blockNumber (chainDepositsOf ds c))"
  by (simp add: chainDepositsOf_def)

lemma chainDepositsOf_window:
  "length (filter (\<lambda>d. lo \<le> dep_blockNumber d \<and> dep_blockNumber d \<le> lo + 50) (chainDepositsOf ds c)) =
   bridgeWindow ds c lo"
proof -
  let ?P = "\<lambda>d. lo \<le> dep_blockNumber d \<and> dep_blockNumber d \<le> lo + 50"
  have m: "mset (chainDepositsOf ds c) = mset (filter (\<lambda>d. sourceChain d = c) ds)"
    by (simp add: chainDepositsOf_def)
  have "length (filter ?P xs) = size (filter_mset ?P (mset xs))" for xs :: "deposit list"
    by (simp only: mset_filter[symmetric] size_mset)
  then have "length (filter ?P (chainDepositsOf ds c)) = length (filter ?P (filter (\<lambda>d. sourceChain d = c) ds))"
    by (simp only: m)
  then show ?thesis by (simp add: bridgeWindow_def conj_commute conj_left_commute)
qed

lemma chainBursts_char:
  "m \<le> chainBursts (filter (\<lambda>d. sourceChain d = c) ds) m \<and>
   (\<forall>lo. bridgeWindow ds c lo \<le> chainBursts (filter (\<lambda>d. sourceChain d = c) ds) m) \<and>
   (chainBursts (filter (\<lambda>d. sourceChain d = c) ds) m = m \<or>
    (\<exists>lo. chainBursts (filter (\<lambda>d. sourceChain d = c) ds) m \<le> bridgeWindow ds c lo))"
proof -
  let ?srt = "chainDepositsOf ds c"
  let ?r = "chainBursts (filter (\<lambda>d. sourceChain d = c) ds) m"
  have r: "?r = fold (\<lambda>i m. max m (burstAt ?srt i)) [0..<length ?srt] m"
    by (simp add: chainBursts_def chainDepositsOf_def Let_def)
  note f = fold_max_char[of m "burstAt ?srt" "[0..<length ?srt]", folded r]
  have up: "bridgeWindow ds c lo \<le> ?r" for lo
  proof -
    from burstAt_lower[OF chainDepositsOf_sorted, of lo ds c]
    show ?thesis
    proof
      assume "filter (\<lambda>d. lo \<le> dep_blockNumber d \<and> dep_blockNumber d \<le> lo + 50) ?srt = []"
      then have "bridgeWindow ds c lo = 0"
        using chainDepositsOf_window[of lo ds c] by simp
      then show ?thesis by simp
    next
      assume "\<exists>i<length ?srt. length (filter (\<lambda>d. lo \<le> dep_blockNumber d \<and>
                                               dep_blockNumber d \<le> lo + 50) ?srt) \<le> burstAt ?srt i"
      then obtain i where i: "i < length ?srt" "bridgeWindow ds c lo \<le> burstAt ?srt i"
        by (auto simp: chainDepositsOf_window)
      with f have "burstAt ?srt i \<le> ?r" by simp
      with i show ?thesis by simp
    qed
  qed
  have lowr: "?r = m \<or> (\<exists>lo. ?r \<le> bridgeWindow ds c lo)"
  proof (cases "?r = m")
    case True
    then show ?thesis by simp
  next
    case False
    with f obtain i where i: "i < length ?srt" "?r = burstAt ?srt i" by auto
    from burstAt_upper[OF chainDepositsOf_sorted i(1)]
    have "?r \<le> bridgeWindow ds c (dep_blockNumber (?srt ! i))"
      unfolding i(2) by (simp add: chainDepositsOf_window)
    then show ?thesis by blast
  qed
  from f up lowr show ?thesis by blast
qed

lemma maxBursts_fold_char:
  assumes "set g \<subseteq> set (groupBy sourceChain ds)"
  shows "m \<le> fold (\<lambda>entry m. chainBursts (snd entry) m) g m \<and>
         (\<forall>c\<in>fst ` set g. \<forall>lo. bridgeWindow ds c lo \<le> fold (\<lambda>entry m. chainBursts (snd entry) m) g m) \<and>
         (fold (\<lambda>entry m. chainBursts (snd entry) m) g m = m \<or>
          (\<exists>c lo. fold (\<lambda>entry m. chainBursts (snd entry) m) g m \<le> bridgeWindow ds c lo))"
  using assms
proof (induction g arbitrary: m)
  case Nil
  then show ?case by simp
next
  case (Cons e g)
  obtain c cds where e: "e = (c, cds)" by (cases e)
  with Cons.prems have "(c, cds) \<in> set (groupBy sourceChain ds)" by simp
  from groupBy_entry[OF this] have cds: "cds = filter (\<lambda>d. sourceChain d = c) ds" .
  let ?m1 = "chainBursts cds m"
  note h = chainBursts_char[of m c ds, folded cds]
  from Cons.prems have "set g \<subseteq> set (groupBy sourceChain ds)" by simp
  note ih = Cons.IH[OF this, of ?m1]
  let ?r = "fold (\<lambda>entry m. chainBursts (snd entry) m) g ?m1"
  have r: "fold (\<lambda>entry m. chainBursts (snd entry) m) (e # g) m = ?r" by (simp add: e)
  have 1: "m \<le> ?r" using h ih by linarith
  have 2: "\<forall>c'\<in>fst ` set (e # g). \<forall>lo. bridgeWindow ds c' lo \<le> ?r"
  proof (intro ballI allI)
    fix c' lo assume "c' \<in> fst ` set (e # g)"
    then consider "c' = c" | "c' \<in> fst ` set g" by (auto simp: e)
    then show "bridgeWindow ds c' lo \<le> ?r"
    proof cases
      case 1
      have "bridgeWindow ds c lo \<le> ?m1" using h by blast
      with ih 1 show ?thesis by simp
    next
      case 2
      with ih show ?thesis by blast
    qed
  qed
  have 3: "?r = m \<or> (\<exists>c lo. ?r \<le> bridgeWindow ds c lo)"
  proof -
    from ih consider "?r = ?m1" | "\<exists>c lo. ?r \<le> bridgeWindow ds c lo" by blast
    then show ?thesis
    proof cases
      case 1
      with h show ?thesis by auto
    next
      case 2
      then show ?thesis by blast
    qed
  qed
  from 1 2 3 show ?case unfolding r by blast
qed

lemma bridgeWindow_outside:
  "c \<notin> sourceChain ` set ds \<Longrightarrow> bridgeWindow ds c lo = 0"
  by (auto simp: bridgeWindow_def filter_empty_conv)

lemma maxBurstsOf_is_max:
  "(\<exists>c lo. bridgeWindow ds c lo = maxBurstsOf ds) \<and> (\<forall>c lo. bridgeWindow ds c lo \<le> maxBurstsOf ds)"
proof -
  have m: "maxBurstsOf ds = fold (\<lambda>entry m. chainBursts (snd entry) m) (groupBy sourceChain ds) 0"
    by (simp add: maxBurstsOf_def groupBy_def chainGroup_eq Let_def)
  note c = maxBursts_fold_char[OF subset_refl, where m = 0 and ds = ds, folded m]
  have up: "bridgeWindow ds c lo \<le> maxBurstsOf ds" for c lo
  proof (cases "c \<in> sourceChain ` set ds")
    case True
    then have "c \<in> fst ` set (groupBy sourceChain ds)" by (simp add: groupBy_keys)
    with c show ?thesis by blast
  next
    case False
    then show ?thesis by (simp add: bridgeWindow_outside)
  qed
  have "\<exists>c lo. bridgeWindow ds c lo = maxBurstsOf ds"
  proof (cases "maxBurstsOf ds = 0")
    case True
    with up[of undefined 0] show ?thesis by (intro exI[of _ undefined] exI[of _ 0]) simp
  next
    case False
    with c obtain c' lo where "maxBurstsOf ds \<le> bridgeWindow ds c' lo" by auto
    with up[of c' lo] show ?thesis by (intro exI[of _ c'] exI[of _ lo]) simp
  qed
  with up show ?thesis by blast
qed

lemma bridgeWindow_le_length: "bridgeWindow ds c lo \<le> length ds"
  by (simp add: bridgeWindow_def)

lemma maxBurstsOf_le_length: "maxBurstsOf ds \<le> length ds"
  using maxBurstsOf_is_max[of ds] bridgeWindow_le_length by metis

lemma detectRapidBridging_spec:
  "(case detectRapidBridging ds of
      None \<Rightarrow> maxBurstsOf ds < 3
    | Some f \<Rightarrow>
        3 \<le> maxBurstsOf ds \<and> ftype f = ''RAPID_BRIDGING'' \<and>
        riskImpact f = min 35 (15 + 5 * int (maxBurstsOf ds)) \<and>
        f_severity f = (if 5 \<le> maxBurstsOf ds then ''high'' else ''medium''))"
  using maxBurstsOf_le_length[of ds]
  by (auto simp: detectRapidBridging_def Let_def)

lemma five_deposits:
  "map_option (\<lambda>f. (ftype f, f_severity f, riskImpact f)) (detectRapidBridging fiveDeposits) =
   Some (''RAPID_BRIDGING'', ''high'', 35)"
  by code_simp

text \<open>
  Claim C7.  \<open>maxBursts\<close>, which the detector computes chain by chain on the deposits
  sorted by block number, is the largest number of deposits of one source chain whose
  block numbers lie within a window of 50 blocks: some window holds that many and no window
  holds more.  The detector emits a finding exactly when that maximum is at least 3; the
  finding is \<open>RAPID_BRIDGING\<close> with riskImpact \<open>min(35, 15 + 5 burst)\<close> and severity
  high when the burst is at least 5, medium otherwise.  Five deposits from one chain, two
  blocks apart, trigger it.
\<close>

theorem C7_rapid_bridging_detector:
  "(\<exists>c lo. bridgeWindow ds c lo = maxBurstsOf ds) \<and>
   (\<forall>c lo. bridgeWindow ds c lo \<le> maxBurstsOf ds) \<and>
   (case detectRapidBridging ds of
      None \<Rightarrow> maxBurstsOf ds < 3
    | Some f \<Rightarrow>
        3 \<le> maxBurstsOf ds \<and> ftype f = ''RAPID_BRIDGING'' \<and>
        riskImpact f = min 35 (15 + 5 * int (maxBurstsOf ds)) \<and>
        f_severity f = (if 5 \<le> maxBurstsOf ds then ''high'' else ''medium'')) \<and>
   (\<exists>f. detectRapidBridging fiveDeposits = Some f \<and> ftype f = ''RAPID_BRIDGING'')"
proof (intro conjI)
  show "\<exists>c lo. bridgeWindow ds c lo = maxBurstsOf ds"
    using maxBurstsOf_is_max[of ds] by (rule conjunct1)
  show "\<forall>c lo. bridgeWindow ds c lo \<le> maxBurstsOf ds"
    using maxBurstsOf_is_max[of ds] by (rule conjunct2)
  show "case detectRapidBridging ds of
      None \<Rightarrow> maxBurstsOf ds < 3
    | Some f \<Rightarrow>
        3 \<le> maxBurstsOf ds \<and> ftype f = ''RAPID_BRIDGING'' \<and>
        riskImpact f = min 35 (15 + 5 * int (maxBurstsOf ds)) \<and>
        f_severity f = (if 5 \<le> maxBurstsOf ds then ''high'' else ''medium'')"
    by (rule detectRapidBridging_spec)
  show "\<exists>f. detectRapidBridging fiveDeposits = Some f \<and> ftype f = ''RAPID_BRIDGING''"
    using five_deposits by (cases "detectRapidBridging fiveDeposits") auto
qed

subsection \<open>High velocity\<close>

lemma blocksPerHour_less: "blocksPerHour < real_of_int x \<longleftrightarrow> 300 < x"
  by (simp add: blocksPerHour_def)

lemma blocksPerHour_less_diff:
  "blocksPerHour < real_of_int a - real_of_int b \<longleftrightarrow> 300 < a - b"
  using blocksPerHour_less[of "a - b"] by simp

lemma windowAdvance_char:
  "ws \<le> i \<Longrightarrow>
   ws \<le> windowAdvance srt i ws \<and> windowAdvance srt i ws \<le> i \<and>
   (\<forall>j. ws \<le> j \<and> j < windowAdvance srt i ws \<longrightarrow>
        300 < blockNumber (srt ! i) - blockNumber (srt ! j)) \<and>
   blockNumber (srt ! i) - blockNumber (srt ! windowAdvance srt i ws) \<le> 300"
proof (induction srt i ws rule: windowAdvance.induct)
  case (1 srt i ws)
  show ?case
  proof (cases "ws < i \<and> 300 < blockNumber (srt ! i) - blockNumber (srt ! ws)")
    case True
    then have e: "windowAdvance srt i ws = windowAdvance srt i (ws + 1)"
      by (subst windowAdvance.simps) (simp add: blocksPerHour_less blocksPerHour_less_diff)
    from True have "ws + 1 \<le> i" by simp
    from "1.IH"[OF _ this] True
    have ih: "ws + 1 \<le> windowAdvance srt i (ws + 1)" "windowAdvance srt i (ws + 1) \<le> i"
      "\<forall>j. ws + 1 \<le> j \<and> j < windowAdvance srt i (ws + 1) \<longrightarrow>
        300 < blockNumber (srt ! i) - blockNumber (srt ! j)"
      "blockNumber (srt ! i) - blockNumber (srt ! windowAdvance srt i (ws + 1)) \<le> 300"
      by (simp_all add: blocksPerHour_less blocksPerHour_less_diff)
    have "300 < blockNumber (srt ! i) - blockNumber (srt ! j)"
      if "ws \<le> j" "j < windowAdvance srt i (ws + 1)" for j
    proof (cases "j = ws")
      case True
      with \<open>ws < i \<and> 300 < blockNumber (srt ! i) - blockNumber (srt ! ws)\<close> show ?thesis by simp
    next
      case False
      with that ih(3) show ?thesis by simp
    qed
    with ih show ?thesis unfolding e by auto
  next
    case False
    then have e: "windowAdvance srt i ws = ws"
      by (subst windowAdvance.simps) (auto simp add: blocksPerHour_less blocksPerHour_less_diff)
    from False "1.prems" have "blockNumber (srt ! i) - blockNumber (srt ! ws) \<le> 300"
      by (cases "ws = i") auto
    with "1.prems" show ?thesis unfolding e by simp
  qed
qed

lemma windowCount_eq:
  assumes "sorted (map blockNumber srt)" "i < length srt" "w \<le> i"
    and "\<forall>j<w. 300 < blockNumber (srt ! i) - blockNumber (srt ! j)"
    and "blockNumber (srt ! i) - blockNumber (srt ! w) \<le> 300"
  shows "windowCount srt i = Suc i - w"
proof -
  let ?P = "\<lambda>tx. blockNumber (srt ! i) - 300 \<le> blockNumber tx"
  have split: "take (Suc i) srt = take w srt @ drop w (take (Suc i) srt)"
    using assms(3) by (metis append_take_drop_id min.absorb1 le_SucI take_take)
  have a: "filter ?P (take w srt) = []"
  proof -
    have "\<not> ?P x" if "x \<in> set (take w srt)" for x
    proof -
      from that obtain j where "j < length (take w srt)" "x = take w srt ! j"
        by (auto simp: in_set_conv_nth)
      then have "j < w" "x = srt ! j" by auto
      with assms(4) show ?thesis by auto
    qed
    then show ?thesis by (simp add: filter_empty_conv)
  qed
  have b: "filter ?P (drop w (take (Suc i) srt)) = drop w (take (Suc i) srt)"
  proof -
    have "?P x" if "x \<in> set (drop w (take (Suc i) srt))" for x
    proof -
      from that obtain k where k: "k < length (drop w (take (Suc i) srt))"
        "x = drop w (take (Suc i) srt) ! k"
        by (auto simp: in_set_conv_nth)
      then have wk: "w + k \<le> i" using assms(2) by auto
      with k have x: "x = srt ! (w + k)" using assms(2) by simp
      have "blockNumber (srt ! w) \<le> blockNumber (srt ! (w + k))"
        using sorted_nth_mono[OF assms(1), of w "w + k"] wk assms(2) by simp
      with assms(5) x show ?thesis by simp
    qed
    then show ?thesis by (simp add: filter_id_conv)
  qed
  have "windowCount srt i = length (filter ?P (take w srt @ drop w (take (Suc i) srt)))"
    unfolding windowCount_def using split by simp
  also have "\<dots> = length (drop w (take (Suc i) srt))"
    by (simp only: filter_append a b append_Nil)
  also have "\<dots> = Suc i - w" using assms(2) by simp
  finally show ?thesis .
qed

lemma velocityLoop_fold:
  assumes "sorted (map blockNumber srt)"
    and "i < length srt \<longrightarrow> ws \<le> i \<and> (\<forall>j<ws. 300 < blockNumber (srt ! i) - blockNumber (srt ! j))"
  shows "velocityLoop srt i ws mx =
           fold (\<lambda>k m. max m (int (windowCount srt k))) [i..<length srt] mx"
  using assms
proof (induction srt i ws mx rule: velocityLoop.induct)
  case (1 srt i ws mx)
  show ?case
  proof (cases "i < length srt")
    case False
    then show ?thesis by (subst velocityLoop.simps) simp
  next
    case True
    let ?w = "windowAdvance srt i ws"
    from True "1.prems"(2) have inv: "ws \<le> i"
      "\<forall>j<ws. 300 < blockNumber (srt ! i) - blockNumber (srt ! j)" by auto
    note c = windowAdvance_char[OF inv(1), of srt]
    have below: "\<forall>j<?w. 300 < blockNumber (srt ! i) - blockNumber (srt ! j)"
    proof (intro allI impI)
      fix j assume "j < ?w"
      show "300 < blockNumber (srt ! i) - blockNumber (srt ! j)"
      proof (cases "j < ws")
        case True
        with inv(2) show ?thesis by simp
      next
        case False
        with \<open>j < ?w\<close> c show ?thesis by simp
      qed
    qed
    have wc: "windowCount srt i = Suc i - ?w"
      using windowCount_eq[OF "1.prems"(1) True _ below] c by simp
    have cnt: "int i - int ?w + 1 = int (windowCount srt i)"
      using c by (simp add: wc)
    have next_inv: "Suc i < length srt \<longrightarrow> ?w \<le> Suc i \<and>
        (\<forall>j<?w. 300 < blockNumber (srt ! Suc i) - blockNumber (srt ! j))"
    proof (intro impI conjI allI)
      show "?w \<le> Suc i" using c by simp
    next
      fix j assume s: "Suc i < length srt" and j: "j < ?w"
      have "blockNumber (srt ! i) \<le> blockNumber (srt ! Suc i)"
        using sorted_nth_mono[OF "1.prems"(1), of i "Suc i"] s by simp
      with below j show "300 < blockNumber (srt ! Suc i) - blockNumber (srt ! j)" by force
    qed
    have "velocityLoop srt i ws mx = velocityLoop srt (i + 1) ?w (max mx (int i - int ?w + 1))"
      using True by (subst velocityLoop.simps) (simp add: Let_def)
    also have "\<dots> = fold (\<lambda>k m. max m (int (windowCount srt k))) [i + 1..<length srt]
                       (max mx (int i - int ?w + 1))"
      using "1.IH"[OF True refl "1.prems"(1)] next_inv by simp
    also have "\<dots> = fold (\<lambda>k m. max m (int (windowCount srt k))) [i..<length srt] mx"
      using True by (simp add: upt_conv_Cons cnt)
    finally show ?thesis .
  qed
qed

lemma windowCount_upper:
  assumes "sorted (map blockNumber srt)" "i < length srt"
  shows "windowCount srt i \<le> velocityWindow srt (blockNumber (srt ! i))"
proof -
  let ?P = "\<lambda>tx. blockNumber (srt ! i) - 300 \<le> blockNumber tx \<and> blockNumber tx \<le> blockNumber (srt ! i)"
  have le: "blockNumber x \<le> blockNumber (srt ! i)" if "x \<in> set (take (Suc i) srt)" for x
  proof -
    from that obtain j where "j < length (take (Suc i) srt)" "x = take (Suc i) srt ! j"
      by (auto simp: in_set_conv_nth)
    then have "j \<le> i" "x = srt ! j" by auto
    then show ?thesis
      using sorted_nth_mono[OF assms(1), of j i] assms(2) by simp
  qed
  have "windowCount srt i = length (filter ?P (take (Suc i) srt))"
    unfolding windowCount_def
    by (rule arg_cong[where f = length], rule filter_cong) (auto simp: le)
  also have "\<dots> \<le> length (filter ?P (take (Suc i) srt @ drop (Suc i) srt))"
    by (simp only: filter_append length_append le_add1)
  finally show ?thesis by (simp add: velocityWindow_def)
qed

lemma windowCount_lower:
  assumes "sorted (map blockNumber srt)"
  shows "velocityWindow srt hi = 0 \<or> (\<exists>i<length srt. velocityWindow srt hi \<le> windowCount srt i)"
proof -
  let ?T = "takeWhile (\<lambda>tx. blockNumber tx \<le> hi) srt"
  have t: "?T = filter (\<lambda>tx. blockNumber tx \<le> hi) srt"
    by (rule sorted_takeWhile_filter[OF assms])
  have "filter (\<lambda>tx. hi - 300 \<le> blockNumber tx \<and> blockNumber tx \<le> hi) srt =
        filter (\<lambda>tx. hi - 300 \<le> blockNumber tx) (filter (\<lambda>tx. blockNumber tx \<le> hi) srt)"
    by (simp add: conj_commute)
  then have w: "velocityWindow srt hi = length (filter (\<lambda>tx. hi - 300 \<le> blockNumber tx) ?T)"
    by (simp only: velocityWindow_def t)
  show ?thesis
  proof (cases "?T = []")
    case True
    have "velocityWindow srt hi = 0" by (simp only: w True filter.simps list.size)
    then show ?thesis by (rule disjI1)
  next
    case False
    define i where "i = length ?T - 1"
    have lt: "length ?T \<le> length srt" by (rule length_takeWhile_le)
    from False have si: "Suc i = length ?T" by (simp add: i_def)
    with lt have i: "i < length srt" by simp
    have tk: "take (Suc i) srt = ?T"
      unfolding si by (rule takeWhile_eq_take[symmetric])
    have "srt ! i = ?T ! i" using si by (simp add: tk[symmetric])
    moreover have "?T ! i \<in> set ?T" using si by simp
    ultimately have hi: "blockNumber (srt ! i) \<le> hi"
      using set_takeWhileD[of "srt ! i" "\<lambda>tx. blockNumber tx \<le> hi" srt] by simp
    have "velocityWindow srt hi \<le> windowCount srt i"
      unfolding w windowCount_def tk using hi by (intro length_filter_mono) auto
    with i show ?thesis by blast
  qed
qed

lemma velocityWindow_sort: "velocityWindow (sort_key blockNumber ts) hi = velocityWindow ts hi"
proof -
  let ?P = "\<lambda>tx. hi - 300 \<le> blockNumber tx \<and> blockNumber tx \<le> hi"
  have "length (filter ?P xs) = size (filter_mset ?P (mset xs))" for xs :: "transfer list"
    by (simp only: mset_filter[symmetric] size_mset)
  then show ?thesis by (simp add: velocityWindow_def)
qed

lemma maxInWindowOf_fold:
  "maxInWindowOf ts =
     fold (\<lambda>k m. max m (int (windowCount (sort_key blockNumber ts) k)))
       [0..<length (sort_key blockNumber ts)] 0"
  unfolding maxInWindowOf_def
  by (rule velocityLoop_fold) simp_all

lemma maxInWindowOf_is_max:
  "(\<exists>hi. int (velocityWindow ts hi) = maxInWindowOf ts) \<and>
   (\<forall>hi. int (velocityWindow ts hi) \<le> maxInWindowOf ts)"
proof -
  let ?srt = "sort_key blockNumber ts"
  have s: "sorted (map blockNumber ?srt)" by simp
  note f = fold_max_char[of 0 "\<lambda>k. int (windowCount ?srt k)" "[0..<length ?srt]",
      folded maxInWindowOf_fold]
  have up: "int (velocityWindow ts hi) \<le> maxInWindowOf ts" for hi
  proof -
    from windowCount_lower[OF s, of hi] show ?thesis
    proof
      assume "velocityWindow ?srt hi = 0"
      then show ?thesis using f by (simp add: velocityWindow_sort)
    next
      assume "\<exists>i<length ?srt. velocityWindow ?srt hi \<le> windowCount ?srt i"
      then obtain i where i: "i < length ?srt" "velocityWindow ts hi \<le> windowCount ?srt i"
        by (auto simp: velocityWindow_sort)
      with f have "int (windowCount ?srt i) \<le> maxInWindowOf ts" by simp
      with i show ?thesis by simp
    qed
  qed
  have "\<exists>hi. int (velocityWindow ts hi) = maxInWindowOf ts"
  proof (cases "maxInWindowOf ts = 0")
    case True
    with up[of 0] show ?thesis by (intro exI[of _ 0]) simp
  next
    case False
    with f obtain i where i: "i < length ?srt" "maxInWindowOf ts = int (windowCount ?srt i)"
      by auto
    from windowCount_upper[OF s i(1)]
    have "maxInWindowOf ts \<le> int (velocityWindow ts (blockNumber (?srt ! i)))"
      unfolding i(2) by (simp add: velocityWindow_sort)
    with up[of "blockNumber (?srt ! i)"] show ?thesis
      by (intro exI[of _ "blockNumber (?srt ! i)"]) simp
  qed
  with up show ?thesis by blast
qed

lemma maxInWindowOf_le_length: "maxInWindowOf ts \<le> int (length ts)"
proof -
  from maxInWindowOf_is_max[of ts] obtain hi where "int (velocityWindow ts hi) = maxInWindowOf ts"
    by blast
  moreover have "velocityWindow ts hi \<le> length ts" by (simp add: velocityWindow_def)
  ultimately show ?thesis by simp
qed

lemma detectHighVelocity_spec:
  "(case detectHighVelocity address ts of
      None \<Rightarrow> maxInWindowOf ts < 20
    | Some f \<Rightarrow>
        20 \<le> length ts \<and> 20 \<le> maxInWindowOf ts \<and>
        ftype f = ''HIGH_VELOCITY'' \<and> f_severity f = ''medium'' \<and> riskImpact f = 20 \<and>
        confidence f = min 85 (30 + 30 * (real_of_int (maxInWindowOf ts) / 20)))"
  using maxInWindowOf_le_length[of ts]
  by (auto simp: detectHighVelocity_def Let_def HIGH_VELOCITY_TXS_PER_HOUR_def
      maxInWindowOf_def[symmetric])

lemma twenty_five:
  "map_option (\<lambda>f. (ftype f, confidence f)) (detectHighVelocity velocityAddress twentyFiveTransfers) =
   Some (''HIGH_VELOCITY'', 135 / 2)"
  by code_simp

lemma few_transfers: "length ts < 20 \<Longrightarrow> detectHighVelocity address ts = None"
  by (simp add: detectHighVelocity_def HIGH_VELOCITY_TXS_PER_HOUR_def)

text \<open>
  Claim C6.  \<open>maxInWindow\<close>, which the detector computes with two indices over the
  transfers sorted by block number, is the largest number of transfers whose block numbers
  lie within a window of \<open>blocksPerHour = 300\<close> blocks: some window holds that many and no
  window holds more.  The detector emits a finding exactly when that maximum is at least
  20 (which needs at least 20 transfers); the finding is \<open>HIGH_VELOCITY\<close>, severity
  medium, riskImpact 20, confidence \<open>min(85, 30 + 30 (max / 20))\<close>.  Twenty-five outgoing
  transfers one block apart trigger it.
\<close>

theorem C6_high_velocity_detector:
  "(\<exists>hi. int (velocityWindow ts hi) = maxInWindowOf ts) \<and>
   (\<forall>hi. int (velocityWindow ts hi) \<le> maxInWindowOf ts) \<and>
   (case detectHighVelocity address ts of
      None \<Rightarrow> maxInWindowOf ts < 20
    | Some f \<Rightarrow>
        20 \<le> length ts \<and> 20 \<le> maxInWindowOf ts \<and>
        ftype f = ''HIGH_VELOCITY'' \<and> f_severity f = ''medium'' \<and> riskImpact f = 20 \<and>
        confidence f = min 85 (30 + 30 * (real_of_int (maxInWindowOf ts) / 20))) \<and>
   (\<exists>f. detectHighVelocity velocityAddress twentyFiveTransfers = Some f \<and>
        ftype f = ''HIGH_VELOCITY'')"
proof (intro conjI)
  show "\<exists>hi. int (velocityWindow ts hi) = maxInWindowOf ts"
    using maxInWindowOf_is_max[of ts] by (rule conjunct1)
  show "\<forall>hi. int (velocityWindow ts hi) \<le> maxInWindowOf ts"
    using maxInWindowOf_is_max[of ts] by (rule conjunct2)
  show "case detectHighVelocity address ts of
      None \<Rightarrow> maxInWindowOf ts < 20
    | Some f \<Rightarrow>
        20 \<le> length ts \<and> 20 \<le> maxInWindowOf ts \<and>
        ftype f = ''HIGH_VELOCITY'' \<and> f_severity f = ''medium'' \<and> riskImpact f = 20 \<and>
        confidence f = min 85 (30 + 30 * (real_of_int (maxInWindowOf ts) / 20))"
    by (rule detectHighVelocity_spec)
  show "\<exists>f. detectHighVelocity velocityAddress twentyFiveTransfers = Some f \<and>
        ftype f = ''HIGH_VELOCITY''"
    using twenty_five
    by (cases "detectHighVelocity velocityAddress twentyFiveTransfers") auto
qed

end
